theory Spec2Isabelle
  imports Complex_Main "HOL-Library.Sublist"
begin

section \<open>Python values\<close>

text \<open>
  The library computes on Python floats. They are modelled as real numbers: rounding,
  overflow and the non-finite floats are outside the model, so a NumPy division by zero
  (which yields \<open>inf\<close> or \<open>nan\<close> and a warning, never an exception) is HOL's total
  division. The one place where the rounding is written out is the midpoint of the
  bisection, \<open>(vol_low + vol_high) / 2\<close>: what the bisection returns once its interval
  is one unit in the last place wide is decided by how that sum rounds. A division of
  two Python scalars by zero raises, and so does an unknown option type; every such
  raise is a value \<open>Inl\<close> of the result.
\<close>

datatype py_error = ValueError | ZeroDivisionError | UnboundLocalError

text \<open>\<open>str.lower()\<close> on the ASCII letters, and the substring test \<open>sub in s\<close>.\<close>

definition char_lower :: "char \<Rightarrow> char" where
  "char_lower c =
     (case map_of (zip ''ABCDEFGHIJKLMNOPQRSTUVWXYZ'' ''abcdefghijklmnopqrstuvwxyz'') c of
        Some d \<Rightarrow> d
      | None \<Rightarrow> c)"

definition str_lower :: "string \<Rightarrow> string" where
  "str_lower s = map char_lower s"

fun str_contains :: "string \<Rightarrow> string \<Rightarrow> bool" where
  "str_contains sub [] = (sub = [])"
| "str_contains sub (c # cs) = (prefix sub (c # cs) \<or> str_contains sub cs)"

section \<open>Rounding to float64\<close>

text \<open>
  A float64 operation returns the exact result rounded to the nearest number with a
  significand of 53 bits, a tie going to the even significand. \<open>fl64 x\<close> is that number
  for \<open>x\<close> in the normal range (no overflow, no subnormal numbers): with
  \<open>2\<^sup>e \<le> \<bar>x\<bar> < 2\<^sup>e\<^sup>+\<^sup>1\<close> the unit in the last place is \<open>2\<^sup>e\<^sup>-\<^sup>5\<^sup>2\<close>, and \<open>x\<close> is rounded to a
  multiple of it.
\<close>

definition round_half_even :: "real \<Rightarrow> int" where
  "round_half_even x =
     (let f = \<lfloor>x\<rfloor>; d = x - of_int f
      in if d < 1 / 2 then f else if 1 / 2 < d then f + 1 else if even f then f else f + 1)"

definition pow2 :: "int \<Rightarrow> real" where
  "pow2 e = 2 powr of_int e"

definition fl64 :: "real \<Rightarrow> real" where
  "fl64 x =
     (let e = \<lfloor>log 2 \<bar>x\<bar>\<rfloor>; ulp = pow2 (e - 52)
      in of_int (round_half_even (x / ulp)) * ulp)"

section \<open>The standard normal distribution (scipy.stats.norm)\<close>

text \<open>
  \<open>norm.pdf\<close> is the density \<open>exp (- x\<^sup>2 / 2) / sqrt (2 pi)\<close>. \<open>norm.cdf\<close> is its
  distribution function: one half (the share of the area under \<open>exp (- t\<^sup>2 / 2)\<close> left
  of \<open>0\<close>) plus the area between \<open>0\<close> and \<open>x\<close> divided by the whole area.
  \<open>gauss_area x\<close> is the area between \<open>0\<close> and \<open>x\<close>, as the power series of the
  antiderivative that vanishes at \<open>0\<close>; \<open>gauss_half\<close> is the area right of \<open>0\<close>, the least
  upper bound of these.
\<close>

definition gauss_area :: "real \<Rightarrow> real" where
  "gauss_area x = (\<Sum>n. (- 1) ^ n * x ^ (2 * n + 1) / (2 ^ n * fact n * real (2 * n + 1)))"

definition gauss_half :: real where
  "gauss_half = (SUP x. gauss_area x)"

definition norm_cdf :: "real \<Rightarrow> real" where
  "norm_cdf x = 1 / 2 + gauss_area x / (2 * gauss_half)"

definition norm_pdf :: "real \<Rightarrow> real" where
  "norm_pdf x = exp (- (x ^ 2) / 2) / sqrt (2 * pi)"

text \<open>The coefficients of \<open>gauss_area\<close> as a power series in \<open>x\<close>, for its derivative.\<close>

definition gauss_coeff :: "nat \<Rightarrow> real" where
  "gauss_coeff n =
     (if odd n then (- 1) ^ ((n - 1) div 2) / (2 ^ ((n - 1) div 2) * fact ((n - 1) div 2) * real n)
      else 0)"

section \<open>black\_scholes.py\<close>

definition d1 :: "real \<Rightarrow> real \<Rightarrow> real \<Rightarrow> real \<Rightarrow> real \<Rightarrow> py_error + real" where
  "d1 S K T r sigma =
     (if T \<le> 0 then Inr 0
      else if K = 0 then Inl ZeroDivisionError
      else
        (let numerator = ln (S / K) + (r + 0.5 * sigma ^ 2) * T;
             denominator = sigma * sqrt T
         in Inr (numerator / denominator)))"

definition d2 :: "real \<Rightarrow> real \<Rightarrow> real \<Rightarrow> real \<Rightarrow> real \<Rightarrow> py_error + real" where
  "d2 S K T r sigma =
     (case d1 S K T r sigma of
        Inl e \<Rightarrow> Inl e
      | Inr d_1 \<Rightarrow> Inr (d_1 - sigma * sqrt T))"

definition black_scholes_price ::
  "real \<Rightarrow> real \<Rightarrow> real \<Rightarrow> real \<Rightarrow> real \<Rightarrow> string \<Rightarrow> py_error + real" where
  "black_scholes_price S K T r sigma option_type =
     (case d1 S K T r sigma of
        Inl e \<Rightarrow> Inl e
      | Inr d_1 \<Rightarrow>
          (case d2 S K T r sigma of
             Inl e \<Rightarrow> Inl e
           | Inr d_2 \<Rightarrow>
               (let discount = exp (- r * T) in
                if str_lower option_type = ''call''
                then Inr (S * norm_cdf d_1 - K * discount * norm_cdf d_2)
                else if str_lower option_type = ''put''
                then Inr (K * discount * norm_cdf (- d_2) - S * norm_cdf (- d_1))
                else Inl ValueError)))"

section \<open>greeks.py\<close>

definition delta :: "real \<Rightarrow> real \<Rightarrow> real \<Rightarrow> real \<Rightarrow> real \<Rightarrow> string \<Rightarrow> py_error + real" where
  "delta S K T r sigma option_type =
     (case d1 S K T r sigma of
        Inl e \<Rightarrow> Inl e
      | Inr d_1 \<Rightarrow>
          (if str_lower option_type = ''call'' then Inr (norm_cdf d_1)
           else Inr (norm_cdf d_1 - 1)))"

definition gamma :: "real \<Rightarrow> real \<Rightarrow> real \<Rightarrow> real \<Rightarrow> real \<Rightarrow> py_error + real" where
  "gamma S K T r sigma =
     (case d1 S K T r sigma of
        Inl e \<Rightarrow> Inl e
      | Inr d_1 \<Rightarrow> (let n_d1 = norm_pdf d_1 in Inr (n_d1 / (S * sigma * sqrt T))))"

definition vega :: "real \<Rightarrow> real \<Rightarrow> real \<Rightarrow> real \<Rightarrow> real \<Rightarrow> py_error + real" where
  "vega S K T r sigma =
     (case d1 S K T r sigma of
        Inl e \<Rightarrow> Inl e
      | Inr d_1 \<Rightarrow> (let n_d1 = norm_pdf d_1 in Inr (S * sqrt T * n_d1 / 100)))"

definition theta :: "real \<Rightarrow> real \<Rightarrow> real \<Rightarrow> real \<Rightarrow> real \<Rightarrow> string \<Rightarrow> py_error + real" where
  "theta S K T r sigma option_type =
     (case d1 S K T r sigma of
        Inl e \<Rightarrow> Inl e
      | Inr d_1 \<Rightarrow>
          (case d2 S K T r sigma of
             Inl e \<Rightarrow> Inl e
           | Inr d_2 \<Rightarrow>
               (let n_d1 = norm_pdf d_1;
                    first_term = - (S * n_d1 * sigma) / (2 * sqrt T);
                    second_term =
                      (if str_lower option_type = ''call''
                       then - r * K * exp (- r * T) * norm_cdf d_2
                       else r * K * exp (- r * T) * norm_cdf (- d_2));
                    theta_annual = first_term + second_term;
                    theta_daily = theta_annual / 365
                in Inr theta_daily)))"

definition rho :: "real \<Rightarrow> real \<Rightarrow> real \<Rightarrow> real \<Rightarrow> real \<Rightarrow> string \<Rightarrow> py_error + real" where
  "rho S K T r sigma option_type =
     (case d2 S K T r sigma of
        Inl e \<Rightarrow> Inl e
      | Inr d_2 \<Rightarrow>
          (let rho_value =
                 (if str_lower option_type = ''call''
                  then K * T * exp (- r * T) * norm_cdf d_2
                  else - K * T * exp (- r * T) * norm_cdf (- d_2))
           in Inr (rho_value / 100)))"

record greeks =
  g_delta :: real
  g_gamma :: real
  g_vega :: real
  g_theta :: real
  g_rho :: real

definition calculate_all_greeks ::
  "real \<Rightarrow> real \<Rightarrow> real \<Rightarrow> real \<Rightarrow> real \<Rightarrow> string \<Rightarrow> py_error + greeks" where
  "calculate_all_greeks S K T r sigma option_type =
     (case delta S K T r sigma option_type of
        Inl e \<Rightarrow> Inl e
      | Inr dl \<Rightarrow>
     (case gamma S K T r sigma of
        Inl e \<Rightarrow> Inl e
      | Inr ga \<Rightarrow>
     (case vega S K T r sigma of
        Inl e \<Rightarrow> Inl e
      | Inr ve \<Rightarrow>
     (case theta S K T r sigma option_type of
        Inl e \<Rightarrow> Inl e
      | Inr th \<Rightarrow>
     (case rho S K T r sigma option_type of
        Inl e \<Rightarrow> Inl e
      | Inr rh \<Rightarrow>
          Inr \<lparr>g_delta = dl, g_gamma = ga, g_vega = ve, g_theta = th, g_rho = rh\<rparr>)))))"

section \<open>implied\_volatility.py\<close>

record solver_result =
  implied_vol :: real
  converged :: bool
  iterations :: int
  final_error :: real

text \<open>
  A \<open>for\<close> loop over \<open>range(max_iterations)\<close> runs over the indices \<open>0, ..., max_iterations - 1\<close>.
  It is left by a \<open>return\<close> inside the body (\<open>Returned\<close>), or it ends, exhausted or by
  \<open>break\<close>, with the loop variables as they are (\<open>Ended\<close>).
\<close>

definition py_range :: "int \<Rightarrow> int list" where
  "py_range n = [0..n - 1]"

datatype ('r, 's) for_exit = Returned 'r | Ended 's

fun newton_for ::
  "real \<Rightarrow> real \<Rightarrow> real \<Rightarrow> real \<Rightarrow> real \<Rightarrow> string \<Rightarrow> real \<Rightarrow> int list \<Rightarrow> real
   \<Rightarrow> py_error + (solver_result, real) for_exit" where
  "newton_for market_price S K T r option_type tolerance [] sigma = Inr (Ended sigma)"
| "newton_for market_price S K T r option_type tolerance (i # rest) sigma =
     (case black_scholes_price S K T r sigma option_type of
        Inl e \<Rightarrow> Inl e
      | Inr bs_price \<Rightarrow>
          (let price_diff = bs_price - market_price in
           if \<bar>price_diff\<bar> < tolerance
           then Inr (Returned \<lparr>implied_vol = sigma, converged = True, iterations = i + 1,
                               final_error = \<bar>price_diff\<bar>\<rparr>)
           else
             (case vega S K T r sigma of
                Inl e \<Rightarrow> Inl e
              | Inr v \<Rightarrow>
                  (let option_vega = v * 100 in
                   if \<bar>option_vega\<bar> < 1 / 10 ^ 10 then Inr (Ended sigma)
                   else
                     (let sigma' = sigma - price_diff / option_vega in
                      newton_for market_price S K T r option_type tolerance rest
                        (if sigma' \<le> 0 then 0.01 else sigma'))))))"

definition implied_volatility_newton ::
  "real \<Rightarrow> real \<Rightarrow> real \<Rightarrow> real \<Rightarrow> real \<Rightarrow> string \<Rightarrow> real \<Rightarrow> real \<Rightarrow> int
   \<Rightarrow> py_error + solver_result" where
  "implied_volatility_newton market_price S K T r option_type initial_vol tolerance max_iterations =
     (case newton_for market_price S K T r option_type tolerance (py_range max_iterations)
             initial_vol of
        Inl e \<Rightarrow> Inl e
      | Inr (Returned result) \<Rightarrow> Inr result
      | Inr (Ended sigma) \<Rightarrow>
          (case black_scholes_price S K T r sigma option_type of
             Inl e \<Rightarrow> Inl e
           | Inr bs_price \<Rightarrow>
               Inr \<lparr>implied_vol = sigma, converged = False, iterations = max_iterations,
                    final_error = \<bar>bs_price - market_price\<bar>\<rparr>))"

text \<open>
  In the bisection loop \<open>vol_mid\<close> is bound by the first iteration only: the last
  argument is its value so far, \<open>None\<close> while it is unbound. The midpoint is the float64
  one: the sum is rounded, and so is its half (which is exact).
\<close>

fun bisection_for ::
  "real \<Rightarrow> real \<Rightarrow> real \<Rightarrow> real \<Rightarrow> real \<Rightarrow> string \<Rightarrow> real \<Rightarrow> int list \<Rightarrow> real \<Rightarrow> real
   \<Rightarrow> real option \<Rightarrow> py_error + (solver_result, real option) for_exit" where
  "bisection_for market_price S K T r option_type tolerance [] vol_low vol_high last_mid =
     Inr (Ended last_mid)"
| "bisection_for market_price S K T r option_type tolerance (i # rest) vol_low vol_high last_mid =
     (let vol_mid = fl64 (fl64 (vol_low + vol_high) / 2) in
      case black_scholes_price S K T r vol_mid option_type of
        Inl e \<Rightarrow> Inl e
      | Inr price_mid \<Rightarrow>
          (let diff = price_mid - market_price in
           if \<bar>diff\<bar> < tolerance
           then Inr (Returned \<lparr>implied_vol = vol_mid, converged = True, iterations = i + 1,
                               final_error = \<bar>diff\<bar>\<rparr>)
           else if diff > 0
           then bisection_for market_price S K T r option_type tolerance rest
                  vol_low vol_mid (Some vol_mid)
           else bisection_for market_price S K T r option_type tolerance rest
                  vol_mid vol_high (Some vol_mid)))"

definition implied_volatility_bisection ::
  "real \<Rightarrow> real \<Rightarrow> real \<Rightarrow> real \<Rightarrow> real \<Rightarrow> string \<Rightarrow> real \<Rightarrow> real \<Rightarrow> real \<Rightarrow> int
   \<Rightarrow> py_error + solver_result" where
  "implied_volatility_bisection market_price S K T r option_type vol_low vol_high tolerance
     max_iterations =
     (case bisection_for market_price S K T r option_type tolerance (py_range max_iterations)
             vol_low vol_high None of
        Inl e \<Rightarrow> Inl e
      | Inr (Returned result) \<Rightarrow> Inr result
      | Inr (Ended None) \<Rightarrow> Inl UnboundLocalError
      | Inr (Ended (Some vol_mid)) \<Rightarrow>
          (case black_scholes_price S K T r vol_mid option_type of
             Inl e \<Rightarrow> Inl e
           | Inr bs_price \<Rightarrow>
               Inr \<lparr>implied_vol = vol_mid, converged = False, iterations = max_iterations,
                    final_error = \<bar>bs_price - market_price\<bar>\<rparr>))"

text \<open>
  \<open>calculate_implied_vol\<close> returns a float, a volatility or \<open>np.nan\<close>. Its only effect is
  which solvers it calls; the model returns them, in the order of the calls, with the
  float.
\<close>

datatype py_float = Float real | NaN

datatype solver = Newton_Raphson | Bisection

definition calculate_implied_vol ::
  "real \<Rightarrow> real \<Rightarrow> real \<Rightarrow> real \<Rightarrow> real \<Rightarrow> string \<Rightarrow> py_error + solver list \<times> py_float" where
  "calculate_implied_vol market_price S K T r option_type =
     (case implied_volatility_newton market_price S K T r option_type 0.2 0.000001 100 of
        Inl e \<Rightarrow> Inl e
      | Inr result \<Rightarrow>
          if converged result then Inr ([Newton_Raphson], Float (implied_vol result))
          else
            (case implied_volatility_bisection market_price S K T r option_type (fl64 0.001) 3.0
                    0.000001 100 of
               Inl e \<Rightarrow> Inl e
             | Inr result' \<Rightarrow>
                 if converged result'
                 then Inr ([Newton_Raphson, Bisection], Float (implied_vol result'))
                 else Inr ([Newton_Raphson, Bisection], NaN)))"

section \<open>delta\_hedging.py\<close>

text \<open>
  The random source is the sequence of standard normal variates the generator yields
  once seeded: \<open>Z i\<close> is the variate drawn in iteration \<open>i\<close> of the path loop. NumPy
  arrays are lists, written by index.
\<close>

definition simulate_stock_path ::
  "real \<Rightarrow> real \<Rightarrow> real \<Rightarrow> real \<Rightarrow> nat \<Rightarrow> (nat \<Rightarrow> real) \<Rightarrow> py_error + real list" where
  "simulate_stock_path S0 r sigma T n_steps Z =
     (if n_steps = 0 then Inl ZeroDivisionError
      else
        (let dt = T / real n_steps;
             path = (replicate (n_steps + 1) 0)[0 := S0]
         in Inr (foldl
                  (\<lambda>path i.
                     path[i := path ! (i - 1)
                                * exp ((r - 0.5 * sigma ^ 2) * dt + sigma * sqrt dt * Z i)])
                  path [1..<n_steps + 1])))"

text \<open>\<open>np.linspace(start, stop, num)\<close>, for \<open>num\<close> at least two.\<close>

definition linspace :: "real \<Rightarrow> real \<Rightarrow> nat \<Rightarrow> real list" where
  "linspace start stop num =
     map (\<lambda>i. start + real i * ((stop - start) / real (num - 1))) [0..<num]"

record hedge_arrays =
  deltas :: "real list"
  shares :: "real list"
  option_values :: "real list"
  cash :: "real list"
  portfolio_values :: "real list"

fun hedge_for ::
  "real \<Rightarrow> real \<Rightarrow> real \<Rightarrow> real \<Rightarrow> real \<Rightarrow> string \<Rightarrow> real list \<Rightarrow> real list \<Rightarrow> nat list
   \<Rightarrow> hedge_arrays \<Rightarrow> py_error + hedge_arrays" where
  "hedge_for K T r sigma dt option_type times_arr stock_path [] a = Inr a"
| "hedge_for K T r sigma dt option_type times_arr stock_path (i # rest) a =
     (let S = stock_path ! i;
          t = times_arr ! i;
          tau = T - t
      in
      case
        (if tau > 0.0001
         then
           (case black_scholes_price S K tau r sigma option_type of
              Inl e \<Rightarrow> Inl e
            | Inr ov \<Rightarrow>
                (case delta S K tau r sigma option_type of
                   Inl e \<Rightarrow> Inl e
                 | Inr dl \<Rightarrow> Inr (ov, dl)))
         else if option_type = ''call''
         then Inr (max (S - K) 0, if S > K then 1 else 0)
         else Inr (max (K - S) 0, if S < K then - 1 else 0)) of
        Inl e \<Rightarrow> Inl e
      | Inr (ov, dl) \<Rightarrow>
          (let option_values' = (option_values a)[i := ov];
               deltas' = (deltas a)[i := dl];
               delta_change = deltas' ! i - shares a ! (i - 1);
               shares' = (shares a)[i := deltas' ! i];
               interest = cash a ! (i - 1) * (exp (r * dt) - 1);
               transaction_cost = delta_change * S;
               cash' = (cash a)[i := cash a ! (i - 1) + interest - transaction_cost];
               portfolio_values' =
                 (portfolio_values a)[i := cash' ! i + shares' ! i * S - option_values' ! i]
           in hedge_for K T r sigma dt option_type times_arr stock_path rest
                \<lparr>deltas = deltas', shares = shares', option_values = option_values',
                 cash = cash', portfolio_values = portfolio_values'\<rparr>))"

text \<open>The data frame, by columns, and the summary.\<close>

record hedge_frame =
  col_time :: "real list"
  col_stock_price :: "real list"
  col_delta :: "real list"
  col_shares_held :: "real list"
  col_option_value :: "real list"
  col_cash :: "real list"
  col_portfolio_value :: "real list"

record hedge_summary =
  option_premium :: real
  final_stock_price :: real
  option_payoff :: real
  theoretical_pnl :: real
  hedge_portfolio_value :: real
  hedging_error :: real
  error_percent :: real

definition simulate_delta_hedging ::
  "real \<Rightarrow> real \<Rightarrow> real \<Rightarrow> real \<Rightarrow> real \<Rightarrow> nat \<Rightarrow> string \<Rightarrow> (nat \<Rightarrow> real)
   \<Rightarrow> py_error + hedge_frame \<times> hedge_summary" where
  "simulate_delta_hedging S0 K T r sigma n_steps position Z =
     (if n_steps = 0 then Inl ZeroDivisionError
      else
        (let dt = T / real n_steps;
             times_arr = linspace 0 T (n_steps + 1)
         in
         case simulate_stock_path S0 r sigma T n_steps Z of
           Inl e \<Rightarrow> Inl e
         | Inr stock_path \<Rightarrow>
         (let option_type = (if str_contains ''call'' (str_lower position) then ''call'' else ''put'');
              zeros = replicate (n_steps + 1) 0
          in
          case black_scholes_price S0 K T r sigma option_type of
            Inl e \<Rightarrow> Inl e
          | Inr premium \<Rightarrow>
          (case delta S0 K T r sigma option_type of
            Inl e \<Rightarrow> Inl e
          | Inr delta0 \<Rightarrow>
          (let deltas0 = zeros[0 := delta0];
               shares0 = zeros[0 := deltas0 ! 0];
               cash0 = zeros[0 := premium - shares0 ! 0 * S0];
               option_values0 = zeros[0 := premium];
               portfolio_values0 = zeros[0 := cash0 ! 0 + shares0 ! 0 * S0 - premium]
           in
           case hedge_for K T r sigma dt option_type times_arr stock_path [1..<n_steps + 1]
                  \<lparr>deltas = deltas0, shares = shares0, option_values = option_values0,
                   cash = cash0, portfolio_values = portfolio_values0\<rparr> of
             Inl e \<Rightarrow> Inl e
           | Inr a \<Rightarrow>
               (let df = \<lparr>col_time = times_arr, col_stock_price = stock_path,
                          col_delta = deltas a, col_shares_held = shares a,
                          col_option_value = option_values a, col_cash = cash a,
                          col_portfolio_value = portfolio_values a\<rparr>;
                    final_S = last stock_path;
                    payoff = (if option_type = ''call'' then max (final_S - K) 0
                              else max (K - final_S) 0);
                    hedge_pnl = premium - payoff;
                    portfolio_final = last (portfolio_values a);
                    summary =
                      \<lparr>option_premium = premium, final_stock_price = final_S,
                       option_payoff = payoff, theoretical_pnl = hedge_pnl,
                       hedge_portfolio_value = portfolio_final,
                       hedging_error = portfolio_final,
                       error_percent =
                         (if premium > 0 then \<bar>portfolio_final\<bar> / premium * 100 else 0)\<rparr>
                in Inr (df, summary)))))))"

section \<open>The Newton-Raphson protocol, as specified\<close>

text \<open>
  The protocol in the words of the specification, to compare the loop with: the signed
  error of a volatility, the vega in absolute units, one update with its reset to
  \<open>0.01\<close>, the sequence of iterates, and the result read off the first iterate at which
  the protocol stops. The error and the vega are those of the pricing and Greeks engines
  where these return a value.
\<close>

definition newton_error :: "real \<Rightarrow> real \<Rightarrow> real \<Rightarrow> real \<Rightarrow> real \<Rightarrow> string \<Rightarrow> real \<Rightarrow> real" where
  "newton_error market_price S K T r option_type sigma =
     (case black_scholes_price S K T r sigma option_type of
        Inr price \<Rightarrow> price - market_price
      | Inl e \<Rightarrow> 0)"

definition newton_vega :: "real \<Rightarrow> real \<Rightarrow> real \<Rightarrow> real \<Rightarrow> real \<Rightarrow> real" where
  "newton_vega S K T r sigma = (case vega S K T r sigma of Inr v \<Rightarrow> v * 100 | Inl e \<Rightarrow> 0)"

definition newton_update :: "real \<Rightarrow> real \<Rightarrow> real \<Rightarrow> real \<Rightarrow> real \<Rightarrow> string \<Rightarrow> real \<Rightarrow> real" where
  "newton_update market_price S K T r option_type sigma =
     (let updated = sigma - newton_error market_price S K T r option_type sigma
                            / newton_vega S K T r sigma
      in if updated \<le> 0 then 0.01 else updated)"

primrec newton_iterate ::
  "real \<Rightarrow> real \<Rightarrow> real \<Rightarrow> real \<Rightarrow> real \<Rightarrow> string \<Rightarrow> real \<Rightarrow> nat \<Rightarrow> real" where
  "newton_iterate market_price S K T r option_type initial_vol 0 = initial_vol"
| "newton_iterate market_price S K T r option_type initial_vol (Suc n) =
     newton_update market_price S K T r option_type
       (newton_iterate market_price S K T r option_type initial_vol n)"

definition newton_stops ::
  "real \<Rightarrow> real \<Rightarrow> real \<Rightarrow> real \<Rightarrow> real \<Rightarrow> string \<Rightarrow> real \<Rightarrow> real \<Rightarrow> bool" where
  "newton_stops market_price S K T r option_type tolerance sigma \<longleftrightarrow>
     \<bar>newton_error market_price S K T r option_type sigma\<bar> < tolerance
     \<or> \<bar>newton_vega S K T r sigma\<bar> < 1 / 10 ^ 10"

definition newton_protocol ::
  "real \<Rightarrow> real \<Rightarrow> real \<Rightarrow> real \<Rightarrow> real \<Rightarrow> string \<Rightarrow> real \<Rightarrow> real \<Rightarrow> int \<Rightarrow> solver_result" where
  "newton_protocol market_price S K T r option_type initial_vol tolerance max_iterations =
     (case find (\<lambda>n. newton_stops market_price S K T r option_type tolerance
                       (newton_iterate market_price S K T r option_type initial_vol n))
             [0..<nat max_iterations] of
        Some n \<Rightarrow>
          (let sigma = newton_iterate market_price S K T r option_type initial_vol n;
               error = newton_error market_price S K T r option_type sigma
           in if \<bar>error\<bar> < tolerance
              then \<lparr>implied_vol = sigma, converged = True, iterations = int n + 1,
                    final_error = \<bar>error\<bar>\<rparr>
              else \<lparr>implied_vol = sigma, converged = False, iterations = max_iterations,
                    final_error = \<bar>error\<bar>\<rparr>)
      | None \<Rightarrow>
          (let sigma = newton_iterate market_price S K T r option_type initial_vol
                         (nat max_iterations)
           in \<lparr>implied_vol = sigma, converged = False, iterations = max_iterations,
                final_error = \<bar>newton_error market_price S K T r option_type sigma\<bar>\<rparr>))"

section \<open>Invariants of the hedging loop\<close>

text \<open>
  The five arrays have length \<open>n\<close>; two states agree in row \<open>j\<close>; row \<open>i\<close> is what one
  iteration of the loop writes, given row \<open>i - 1\<close>.
\<close>

definition arrays_len :: "hedge_arrays \<Rightarrow> nat \<Rightarrow> bool" where
  "arrays_len a n \<longleftrightarrow> length (deltas a) = n \<and> length (shares a) = n
     \<and> length (option_values a) = n \<and> length (cash a) = n \<and> length (portfolio_values a) = n"

definition arrays_same :: "hedge_arrays \<Rightarrow> hedge_arrays \<Rightarrow> nat \<Rightarrow> bool" where
  "arrays_same a b j \<longleftrightarrow> deltas a ! j = deltas b ! j \<and> shares a ! j = shares b ! j
     \<and> option_values a ! j = option_values b ! j \<and> cash a ! j = cash b ! j
     \<and> portfolio_values a ! j = portfolio_values b ! j"

definition step_ok :: "real \<Rightarrow> real \<Rightarrow> real list \<Rightarrow> hedge_arrays \<Rightarrow> nat \<Rightarrow> bool" where
  "step_ok r dt stock_path a i \<longleftrightarrow>
     portfolio_values a ! i
       = cash a ! i + shares a ! i * stock_path ! i - option_values a ! i
     \<and> cash a ! i
       = cash a ! (i - 1) * exp (r * dt) - (deltas a ! i - shares a ! (i - 1)) * stock_path ! i
     \<and> shares a ! i = deltas a ! i"

text \<open>The float64 midpoint of an interval whose upper bound is \<open>3\<close>.\<close>

definition mid_to_3 :: "real \<Rightarrow> real" where
  "mid_to_3 lo = fl64 (fl64 (lo + 3) / 2)"

section \<open>Strings and the normal distribution: basic facts\<close>

lemma str_lower_call: "str_lower ''call'' = ''call''"
  by (simp add: str_lower_def char_lower_def)

lemma str_lower_put: "str_lower ''put'' = ''put''"
  by (simp add: str_lower_def char_lower_def)

lemma str_lower_straddle: "str_lower ''straddle'' = ''straddle''"
  by (simp add: str_lower_def char_lower_def)

lemma gauss_term_bound:
  "norm ((- 1) ^ n * x ^ (2 * n + 1) / (2 ^ n * fact n * real (2 * n + 1)))
     \<le> \<bar>x\<bar> * (inverse (fact n) * (x\<^sup>2 / 2) ^ n)"
proof -
  have "norm ((- 1) ^ n * x ^ (2 * n + 1) / (2 ^ n * fact n * real (2 * n + 1)))
      = \<bar>x\<bar> * ((x\<^sup>2) ^ n / (2 ^ n * fact n)) / real (2 * n + 1)"
    by (simp add: abs_mult power_abs power_mult [symmetric] power_even_abs field_simps)
  also have "\<dots> \<le> \<bar>x\<bar> * ((x\<^sup>2) ^ n / (2 ^ n * fact n)) / 1"
    by (intro divide_left_mono mult_nonneg_nonneg) auto
  also have "\<dots> = \<bar>x\<bar> * (inverse (fact n) * (x\<^sup>2 / 2) ^ n)"
    by (simp add: power_divide field_simps)
  finally show ?thesis .
qed

lemma summable_gauss:
  "summable (\<lambda>n. (- 1) ^ n * x ^ (2 * n + 1) / (2 ^ n * fact n * real (2 * n + 1)))"
proof (rule summable_comparison_test)
  show "\<exists>N. \<forall>n\<ge>N. norm ((- 1) ^ n * x ^ (2 * n + 1) / (2 ^ n * fact n * real (2 * n + 1)))
         \<le> \<bar>x\<bar> * (inverse (fact n) * (x\<^sup>2 / 2) ^ n)"
    using gauss_term_bound by blast
  show "summable (\<lambda>n. \<bar>x\<bar> * (inverse (fact n) * (x\<^sup>2 / 2) ^ n))"
    by (intro summable_mult summable_exp)
qed

lemma gauss_area_minus: "gauss_area (- x) = - gauss_area x"
proof -
  have "gauss_area (- x)
      = (\<Sum>n. - ((- 1) ^ n * x ^ (2 * n + 1) / (2 ^ n * fact n * real (2 * n + 1))))"
    unfolding gauss_area_def by (rule arg_cong [where f = suminf]) (simp add: fun_eq_iff)
  also have "\<dots> = - gauss_area x"
    unfolding gauss_area_def by (rule suminf_minus [OF summable_gauss])
  finally show ?thesis .
qed

lemma gauss_area_0: "gauss_area 0 = 0"
  by (simp add: gauss_area_def)

lemma norm_cdf_minus: "norm_cdf (- x) = 1 - norm_cdf x"
  by (simp add: norm_cdf_def gauss_area_minus)

lemma norm_cdf_0: "norm_cdf 0 = 1 / 2"
  by (simp add: norm_cdf_def gauss_area_0)

section \<open>Rounding to float64: basic facts\<close>






































section \<open>Pricing and Greeks\<close>

lemma d1_Inr: "T \<le> 0 \<or> K \<noteq> 0 \<Longrightarrow> \<exists>x. d1 S K T r sigma = Inr x"
  by (auto simp: d1_def Let_def)

text \<open>
  C2. Put-call parity: for \<open>S > 0\<close>, \<open>K > 0\<close>, \<open>T \<ge> 0\<close>, any \<open>r\<close> and \<open>sigma > 0\<close> both prices
  exist and the put price plus \<open>S\<close> equals the call price plus \<open>K e\<^sup>-\<^sup>r\<^sup>T\<close>; in real
  arithmetic exactly, hence within \<open>1e-6\<close>.
\<close>

theorem put_call_parity:
  assumes "0 < S" and "0 < K" and "0 \<le> T" and "0 < sigma"
  shows "\<exists>p c. black_scholes_price S K T r sigma ''put'' = Inr p
           \<and> black_scholes_price S K T r sigma ''call'' = Inr c
           \<and> p + S = c + K * exp (- r * T)
           \<and> \<bar>(p + S) - (c + K * exp (- r * T))\<bar> < 1 / 10 ^ 6"
proof -
  from assms obtain x where x: "d1 S K T r sigma = Inr x"
    using d1_Inr [of T K S r sigma] by auto
  then have y: "d2 S K T r sigma = Inr (x - sigma * sqrt T)"
    by (simp add: d2_def)
  define c where "c = S * norm_cdf x - K * exp (- r * T) * norm_cdf (x - sigma * sqrt T)"
  define p where
    "p = K * exp (- r * T) * norm_cdf (- (x - sigma * sqrt T)) - S * norm_cdf (- x)"
  have pc: "black_scholes_price S K T r sigma ''put'' = Inr p"
    and cc: "black_scholes_price S K T r sigma ''call'' = Inr c"
    by (simp_all add: black_scholes_price_def x y str_lower_call str_lower_put p_def c_def)
  have eq: "p + S = c + K * exp (- r * T)"
    unfolding p_def c_def norm_cdf_minus by (simp add: algebra_simps)
  from pc cc eq show ?thesis
    by simp
qed

theorem put_call_parity_witness:
  "\<exists>p c. black_scholes_price 100 100 1 (5 / 100) (2 / 10) ''put'' = Inr p
         \<and> black_scholes_price 100 100 1 (5 / 100) (2 / 10) ''call'' = Inr c
         \<and> p + 100 = c + 100 * exp (- (5 / 100) * 1)"
  using put_call_parity [of 100 100 1 "2 / 10" "5 / 100"] by auto

lemma unknown_option_type_as_put:
  assumes "str_lower option_type \<noteq> ''call''"
  shows "delta S K T r sigma option_type = delta S K T r sigma ''put''"
    and "theta S K T r sigma option_type = theta S K T r sigma ''put''"
    and "rho S K T r sigma option_type = rho S K T r sigma ''put''"
    and "calculate_all_greeks S K T r sigma option_type
         = calculate_all_greeks S K T r sigma ''put''"
proof -
  have p: "str_lower ''put'' \<noteq> ''call''"
    by (simp add: str_lower_put)
  show 2: "delta S K T r sigma option_type = delta S K T r sigma ''put''"
    using assms p by (simp add: delta_def split: sum.splits)
  show 3: "theta S K T r sigma option_type = theta S K T r sigma ''put''"
    using assms p by (simp add: theta_def split: sum.splits)
  show 4: "rho S K T r sigma option_type = rho S K T r sigma ''put''"
    using assms p by (simp add: rho_def split: sum.splits)
  show "calculate_all_greeks S K T r sigma option_type
         = calculate_all_greeks S K T r sigma ''put''"
    unfolding calculate_all_greeks_def 2 3 4 by (rule refl)
qed

lemma greeks_Inr:
  assumes "T \<le> 0 \<or> K \<noteq> 0"
  shows "\<exists>v. theta S K T r sigma option_type = Inr v"
    and "\<exists>v. rho S K T r sigma option_type = Inr v"
    and "\<exists>g. calculate_all_greeks S K T r sigma option_type = Inr g"
proof -
  obtain x where x: "d1 S K T r sigma = Inr x"
    using d1_Inr [OF assms] by blast
  then have y: "d2 S K T r sigma = Inr (x - sigma * sqrt T)"
    by (simp add: d2_def)
  have th: "\<exists>v. theta S K T r sigma option_type = Inr v"
    unfolding theta_def x y Let_def sum.case by blast
  have rh: "\<exists>v. rho S K T r sigma option_type = Inr v"
    unfolding rho_def y Let_def sum.case by blast
  have ga: "\<exists>v. gamma S K T r sigma = Inr v"
    unfolding gamma_def x Let_def sum.case by blast
  have ve: "\<exists>v. vega S K T r sigma = Inr v"
    unfolding vega_def x Let_def sum.case by blast
  have de: "\<exists>v. delta S K T r sigma option_type = Inr v"
    unfolding delta_def x sum.case by (cases "str_lower option_type = ''call''") simp_all
  from th show "\<exists>v. theta S K T r sigma option_type = Inr v" .
  from rh show "\<exists>v. rho S K T r sigma option_type = Inr v" .
  from th rh ga ve de show "\<exists>g. calculate_all_greeks S K T r sigma option_type = Inr g"
    unfolding calculate_all_greeks_def by (elim exE) simp
qed

text \<open>
  C6. Every pricing and every kind-dependent Greeks operation is to raise for an option
  type that is neither a call nor a put. The code with the option type \<open>straddle\<close>:
  \<open>black_scholes_price\<close> raises \<open>ValueError\<close>, while \<open>delta\<close>, \<open>theta\<close>, \<open>rho\<close> and
  \<open>calculate_all_greeks\<close> raise nothing and return the values of a put, the delta being
  \<open>norm.cdf(0.35) - 1\<close>.
\<close>

theorem greeks_accept_unknown_option_type:
  "black_scholes_price 100 100 1 (5 / 100) (2 / 10) ''straddle'' = Inl ValueError
   \<and> delta 100 100 1 (5 / 100) (2 / 10) ''straddle'' = Inr (norm_cdf (35 / 100) - 1)
   \<and> delta 100 100 1 (5 / 100) (2 / 10) ''straddle''
       = delta 100 100 1 (5 / 100) (2 / 10) ''put''
   \<and> (\<exists>v. theta 100 100 1 (5 / 100) (2 / 10) ''straddle'' = Inr v
          \<and> theta 100 100 1 (5 / 100) (2 / 10) ''put'' = Inr v)
   \<and> (\<exists>v. rho 100 100 1 (5 / 100) (2 / 10) ''straddle'' = Inr v
          \<and> rho 100 100 1 (5 / 100) (2 / 10) ''put'' = Inr v)
   \<and> (\<exists>g. calculate_all_greeks 100 100 1 (5 / 100) (2 / 10) ''straddle'' = Inr g
          \<and> calculate_all_greeks 100 100 1 (5 / 100) (2 / 10) ''put'' = Inr g)"
proof -
  have s: "str_lower ''straddle'' \<noteq> ''call''"
    by (simp add: str_lower_straddle)
  have KT: "(1::real) \<le> 0 \<or> (100::real) \<noteq> 0" by simp
  have 1: "black_scholes_price 100 100 1 (5 / 100) (2 / 10) ''straddle'' = Inl ValueError"
    by (simp add: black_scholes_price_def d1_def d2_def str_lower_straddle)
  have 2: "delta 100 100 1 (5 / 100) (2 / 10) ''straddle'' = Inr (norm_cdf (35 / 100) - 1)"
    by (simp add: delta_def d1_def str_lower_straddle power2_eq_square)
  note eq = unknown_option_type_as_put [OF s]
  from 1 2 greeks_Inr [OF KT] show ?thesis
    unfolding eq by simp
qed

section \<open>The implied volatility solvers\<close>

lemma price_Inr:
  assumes "str_lower option_type = ''call'' \<or> str_lower option_type = ''put''"
    and "T \<le> 0 \<or> K \<noteq> 0"
  shows "\<exists>p. black_scholes_price S K T r sigma option_type = Inr p"
proof -
  from assms(2) obtain x where x: "d1 S K T r sigma = Inr x"
    using d1_Inr by blast
  then have "d2 S K T r sigma = Inr (x - sigma * sqrt T)"
    by (simp add: d2_def)
  with x assms(1) show ?thesis
    by (auto simp: black_scholes_price_def Let_def)
qed

lemma vega_Inr:
  assumes "T \<le> 0 \<or> K \<noteq> 0"
  shows "\<exists>v. vega S K T r sigma = Inr v"
proof -
  from assms obtain x where x: "d1 S K T r sigma = Inr x"
    using d1_Inr by blast
  show ?thesis
    by (intro exI [of _ "S * sqrt T * norm_pdf x / 100"]) (simp add: vega_def x)
qed

lemma newton_for_Returned:
  "newton_for m S K T r option_type tol js sigma = Inr (Returned res) \<Longrightarrow> converged res"
  by (induction js arbitrary: sigma) (auto simp: Let_def split: sum.splits if_splits)

lemma newton_for_Inr:
  assumes "str_lower option_type = ''call'' \<or> str_lower option_type = ''put''"
    and "T \<le> 0 \<or> K \<noteq> 0"
  shows "\<exists>x. newton_for m S K T r option_type tol js sigma = Inr x"
proof (induction js arbitrary: sigma)
  case Nil
  show ?case by simp
next
  case (Cons j js)
  obtain p where p: "black_scholes_price S K T r sigma option_type = Inr p"
    using price_Inr [OF assms] by blast
  obtain v where v: "vega S K T r sigma = Inr v"
    using vega_Inr [OF assms(2)] by blast
  show ?case
    using Cons.IH by (simp add: p v Let_def)
qed

lemma implied_volatility_newton_Inr:
  assumes "str_lower option_type = ''call'' \<or> str_lower option_type = ''put''"
    and "T \<le> 0 \<or> K \<noteq> 0"
  shows "\<exists>res. implied_volatility_newton m S K T r option_type init tol maxit = Inr res"
proof -
  obtain x where x: "newton_for m S K T r option_type tol (py_range maxit) init = Inr x"
    using newton_for_Inr [OF assms] by blast
  show ?thesis
  proof (cases x)
    case (Returned res)
    with x show ?thesis by (simp add: implied_volatility_newton_def)
  next
    case (Ended sigma)
    obtain p where "black_scholes_price S K T r sigma option_type = Inr p"
      using price_Inr [OF assms] by blast
    with x Ended show ?thesis by (simp add: implied_volatility_newton_def)
  qed
qed

lemma py_range_100: "py_range 100 = 0 # [1..99]"
  by (simp add: py_range_def upto.simps)

text \<open>
  C10. Whenever \<open>implied_volatility_newton\<close> returns a result that is not converged, its
  \<open>iterations\<close> field is \<open>max_iterations\<close> and its \<open>final_error\<close> is the distance of the
  price at the returned volatility from the market price. The loop may have been left by
  the vega guard long before: in the witness it is left in its first iteration, and the
  result reports \<open>100\<close> iterations.
\<close>

theorem newton_not_converged:
  assumes "implied_volatility_newton m S K T r option_type init tol maxit = Inr res"
    and "\<not> converged res"
  shows "iterations res = maxit
         \<and> (\<exists>p. black_scholes_price S K T r (implied_vol res) option_type = Inr p
                \<and> final_error res = \<bar>p - m\<bar>)"
proof (cases "newton_for m S K T r option_type tol (py_range maxit) init")
  case (Inl e)
  with assms(1) show ?thesis by (simp add: implied_volatility_newton_def)
next
  case (Inr x)
  show ?thesis
  proof (cases x)
    case (Returned res')
    with Inr assms(1) have "res' = res" by (simp add: implied_volatility_newton_def)
    with Inr Returned assms(2) show ?thesis using newton_for_Returned by blast
  next
    case (Ended sigma)
    with Inr assms(1) show ?thesis
      by (auto simp: implied_volatility_newton_def split: sum.splits)
  qed
qed

theorem newton_not_converged_witness:
  "implied_volatility_newton 10 100 100 0 (5 / 100) ''call'' (2 / 10) (1 / 10 ^ 6) 100
     = Inr \<lparr>implied_vol = 2 / 10, converged = False, iterations = 100, final_error = 10\<rparr>
   \<and> iterations \<lparr>implied_vol = 2 / 10, converged = False, iterations = 100, final_error = 10\<rparr> = 100
   \<and> (\<exists>p. black_scholes_price 100 100 0 (5 / 100) (2 / 10) ''call'' = Inr p \<and> 10 = \<bar>p - 10\<bar>)"
proof -
  have p: "black_scholes_price 100 100 0 r sigma ''call'' = Inr 0" for r sigma
    by (simp add: black_scholes_price_def d1_def d2_def str_lower_call)
  have v: "vega 100 100 0 r sigma = Inr 0" for r sigma
    by (simp add: vega_def d1_def)
  have r: "implied_volatility_newton 10 100 100 0 (5 / 100) ''call'' (2 / 10) (1 / 10 ^ 6) 100
     = Inr \<lparr>implied_vol = 2 / 10, converged = False, iterations = 100, final_error = 10\<rparr>"
    unfolding implied_volatility_newton_def py_range_100 by (simp add: p v)
  from newton_not_converged [OF r] r show ?thesis
    by simp
qed

lemma bisection_for_Inr:
  assumes "str_lower option_type = ''call'' \<or> str_lower option_type = ''put''"
    and "T \<le> 0 \<or> K \<noteq> 0"
  shows "\<exists>x. bisection_for m S K T r option_type tol js lo hi last_mid = Inr x"
proof (induction js arbitrary: lo hi last_mid)
  case Nil
  show ?case by simp
next
  case (Cons j js)
  obtain p where p:
    "black_scholes_price S K T r (fl64 (fl64 (lo + hi) / 2)) option_type = Inr p"
    using price_Inr [OF assms] by blast
  show ?case
    using Cons.IH by (simp add: p Let_def)
qed

lemma bisection_for_Ended:
  "bisection_for m S K T r option_type tol js lo hi last_mid = Inr (Ended None)
   \<Longrightarrow> js = [] \<and> last_mid = None"
proof (induction js arbitrary: lo hi last_mid)
  case Nil
  then show ?case by simp
next
  case (Cons j js)
  from Cons.prems have False
    by (auto simp: Let_def split: sum.splits if_splits dest: Cons.IH)
  then show ?case ..
qed

lemma py_range_Nil: "py_range n = [] \<longleftrightarrow> n \<le> 0"
  by (auto simp: py_range_def)

lemma implied_volatility_bisection_Inr:
  assumes "str_lower option_type = ''call'' \<or> str_lower option_type = ''put''"
    and "T \<le> 0 \<or> K \<noteq> 0" and "1 \<le> maxit"
  shows "\<exists>res. implied_volatility_bisection m S K T r option_type lo hi tol maxit = Inr res"
proof -
  obtain x where x: "bisection_for m S K T r option_type tol (py_range maxit) lo hi None = Inr x"
    using bisection_for_Inr [OF assms(1,2)] by blast
  show ?thesis
  proof (cases x)
    case (Returned res)
    with x show ?thesis by (simp add: implied_volatility_bisection_def)
  next
    case (Ended last_mid)
    show ?thesis
    proof (cases last_mid)
      case None
      with x Ended have "py_range maxit = []"
        using bisection_for_Ended by blast
      with assms(3) show ?thesis by (simp add: py_range_Nil)
    next
      case (Some v)
      obtain p where "black_scholes_price S K T r v option_type = Inr p"
        using price_Inr [OF assms(1,2)] by blast
      with x Ended Some show ?thesis by (simp add: implied_volatility_bisection_def)
    qed
  qed
qed


lemma bisection_for_out_of_reach:
  assumes "\<And>sigma. black_scholes_price S K T r sigma option_type = Inr p"
    and "\<not> \<bar>p - m\<bar> < tol" and "\<not> 0 < p - m"
  shows "bisection_for m S K T r option_type tol js lo 3 last_mid
         = Inr (Ended (if js = [] then last_mid else Some ((mid_to_3 ^^ length js) lo)))"
proof (induction js arbitrary: lo last_mid)
  case Nil
  show ?case by simp
next
  case (Cons j js)
  have "bisection_for m S K T r option_type tol (j # js) lo 3 last_mid
        = bisection_for m S K T r option_type tol js (mid_to_3 lo) 3 (Some (mid_to_3 lo))"
    using assms(2,3) by (simp add: assms(1) Let_def mid_to_3_def)
  also have "\<dots> = Inr (Ended (if js = [] then Some (mid_to_3 lo)
                                else Some ((mid_to_3 ^^ length js) (mid_to_3 lo))))"
    by (rule Cons.IH)
  also have "(if js = [] then Some (mid_to_3 lo)
              else Some ((mid_to_3 ^^ length js) (mid_to_3 lo)))
             = Some ((mid_to_3 ^^ length (j # js)) lo)"
    by (simp add: funpow_swap1)
  finally show ?case by simp
qed

lemma price_at_expiry: "black_scholes_price 100 100 0 r sigma ''call'' = Inr 0"
  by (simp add: black_scholes_price_def d1_def d2_def str_lower_call)

lemma length_py_range_100: "length (py_range 100) = 100"
  by (simp add: py_range_def)

lemma bisection_out_of_reach:
  "implied_volatility_bisection 10 100 100 0 r ''call'' lo 3 (1 / 10 ^ 6) 100
   = Inr \<lparr>implied_vol = (mid_to_3 ^^ 100) lo, converged = False, iterations = 100,
          final_error = 10\<rparr>"
proof -
  have ne: "py_range 100 \<noteq> []"
    by (simp add: py_range_100)
  have "bisection_for 10 100 100 0 r ''call'' (1 / 10 ^ 6) (py_range 100) lo 3 None
        = Inr (Ended (if py_range 100 = [] then None
                      else Some ((mid_to_3 ^^ length (py_range 100)) lo)))"
    by (rule bisection_for_out_of_reach [OF price_at_expiry]) simp_all
  then show ?thesis
    unfolding implied_volatility_bisection_def length_py_range_100
    by (simp add: ne price_at_expiry)
qed






text \<open>
  C4. For a call or a put with a strike \<open>K \<noteq> 0\<close> (the data model has \<open>K > 0\<close>; or
  \<open>T \<le> 0\<close>), \<open>calculate_implied_vol\<close> raises nothing. It calls Newton-Raphson first; it
  calls bisection exactly when Newton-Raphson has not converged; it returns
  Newton-Raphson's volatility when that converged, else the volatility of bisection when
  that converged, and \<open>nan\<close> exactly when neither did. In the witness the first run
  converges in Newton-Raphson and returns \<open>0.2\<close>, the second converges in neither solver
  and returns \<open>nan\<close>.
\<close>

theorem calculate_implied_vol_protocol:
  assumes "str_lower option_type = ''call'' \<or> str_lower option_type = ''put''"
    and "T \<le> 0 \<or> K \<noteq> 0"
  shows "\<exists>newton bisection calls v.
           implied_volatility_newton market_price S K T r option_type 0.2 0.000001 100
             = Inr newton
         \<and> implied_volatility_bisection market_price S K T r option_type (fl64 0.001) 3.0
              0.000001 100
             = Inr bisection
         \<and> calculate_implied_vol market_price S K T r option_type = Inr (calls, v)
         \<and> hd calls = Newton_Raphson
         \<and> (Bisection \<in> set calls \<longleftrightarrow> \<not> converged newton)
         \<and> (v = NaN \<longleftrightarrow> \<not> converged newton \<and> \<not> converged bisection)
         \<and> (converged newton \<longrightarrow> v = Float (implied_vol newton))
         \<and> (\<not> converged newton \<and> converged bisection \<longrightarrow> v = Float (implied_vol bisection))"
proof -
  obtain n where n:
    "implied_volatility_newton market_price S K T r option_type 0.2 0.000001 100 = Inr n"
    using implied_volatility_newton_Inr [OF assms] by blast
  have "\<exists>b. implied_volatility_bisection market_price S K T r option_type (fl64 0.001) 3.0
              0.000001 100
            = Inr b"
    by (rule implied_volatility_bisection_Inr [OF assms]) simp
  then obtain b where b:
    "implied_volatility_bisection market_price S K T r option_type (fl64 0.001) 3.0 0.000001 100
     = Inr b"
    by blast
  show ?thesis
    unfolding calculate_implied_vol_def n b by auto
qed

theorem calculate_implied_vol_protocol_witness:
  "(\<exists>calls. calculate_implied_vol 0 100 100 0 (5 / 100) ''call''
             = Inr (calls, Float (2 / 10))
           \<and> hd calls = Newton_Raphson \<and> Bisection \<notin> set calls)
   \<and> (\<exists>calls. calculate_implied_vol 10 100 100 0 (5 / 100) ''call'' = Inr (calls, NaN)
           \<and> hd calls = Newton_Raphson \<and> Bisection \<in> set calls)"
proof -
  have v: "vega 100 100 0 r sigma = Inr 0" for r sigma
    by (simp add: vega_def d1_def)
  have n0: "implied_volatility_newton 0 100 100 0 (5 / 100) ''call'' 0.2 0.000001 100
            = Inr \<lparr>implied_vol = 2 / 10, converged = True, iterations = 1, final_error = 0\<rparr>"
    unfolding implied_volatility_newton_def py_range_100 by (simp add: price_at_expiry)
  have n10: "implied_volatility_newton 10 100 100 0 (5 / 100) ''call'' 0.2 0.000001 100
            = Inr \<lparr>implied_vol = 2 / 10, converged = False, iterations = 100,
                   final_error = 10\<rparr>"
    unfolding implied_volatility_newton_def py_range_100 by (simp add: price_at_expiry v)
  have b10: "implied_volatility_bisection 10 100 100 0 (5 / 100) ''call'' (fl64 0.001) 3.0
               0.000001 100
            = Inr \<lparr>implied_vol = (mid_to_3 ^^ 100) (fl64 0.001), converged = False,
                   iterations = 100, final_error = 10\<rparr>"
    using bisection_out_of_reach [of "5 / 100" "fl64 0.001"] by simp
  have KT: "(0::real) \<le> 0 \<or> (100::real) \<noteq> 0" by simp
  have ot: "str_lower ''call'' = ''call'' \<or> str_lower ''call'' = ''put''"
    by (simp add: str_lower_call)
  from calculate_implied_vol_protocol [OF ot KT, of 0 100 "5 / 100"]
  have 1: "\<exists>calls. calculate_implied_vol 0 100 100 0 (5 / 100) ''call''
             = Inr (calls, Float (2 / 10))
           \<and> hd calls = Newton_Raphson \<and> Bisection \<notin> set calls"
    unfolding n0 by auto
  from calculate_implied_vol_protocol [OF ot KT, of 10 100 "5 / 100"]
  have 2: "\<exists>calls. calculate_implied_vol 10 100 100 0 (5 / 100) ''call'' = Inr (calls, NaN)
           \<and> hd calls = Newton_Raphson \<and> Bisection \<in> set calls"
    unfolding n10 b10 by auto
  from 1 2 show ?thesis by blast
qed

section \<open>The hedging simulation\<close>

lemma path_fold:
  fixes g :: "nat \<Rightarrow> real"
  assumes "\<forall>j<k. 0 < path ! j" and "1 \<le> k" and "m \<le> length path"
  shows "length (foldl (\<lambda>path i. path[i := path ! (i - 1) * exp (g i)]) path [k..<m]) = length path
       \<and> (\<forall>j<k. foldl (\<lambda>path i. path[i := path ! (i - 1) * exp (g i)]) path [k..<m] ! j = path ! j)
       \<and> (\<forall>j<m. 0 < foldl (\<lambda>path i. path[i := path ! (i - 1) * exp (g i)]) path [k..<m] ! j)"
  using assms
proof (induction "m - k" arbitrary: k path)
  case 0
  then show ?case by simp
next
  case (Suc d)
  let ?f = "\<lambda>path i. path[i := path ! (i - 1) * exp (g i)]"
  let ?p = "path[k := path ! (k - 1) * exp (g k)]"
  from Suc.hyps(2) have km: "k < m" by simp
  then have upt: "[k..<m] = k # [Suc k..<m]"
    by (simp add: upt_conv_Cons)
  have pos: "\<forall>j<Suc k. 0 < ?p ! j"
  proof (intro allI impI)
    fix j assume "j < Suc k"
    show "0 < ?p ! j"
    proof (cases "j = k")
      case True
      have "0 < path ! (k - 1)" using Suc.prems(1,2) by simp
      with True km Suc.prems(3) show ?thesis by simp
    next
      case False
      with \<open>j < Suc k\<close> Suc.prems(1) show ?thesis by simp
    qed
  qed
  have IH: "length (foldl ?f ?p [Suc k..<m]) = length ?p
       \<and> (\<forall>j<Suc k. foldl ?f ?p [Suc k..<m] ! j = ?p ! j)
       \<and> (\<forall>j<m. 0 < foldl ?f ?p [Suc k..<m] ! j)"
    using Suc.hyps(2) Suc.prems(3) pos by (intro Suc.hyps(1)) auto
  then show ?case
    unfolding upt by simp
qed

lemma simulate_stock_path_run:
  assumes "0 < S0" and "1 \<le> n_steps"
  shows "\<exists>path. simulate_stock_path S0 r sigma T n_steps Z = Inr path
           \<and> length path = n_steps + 1 \<and> path ! 0 = S0 \<and> (\<forall>i\<le>n_steps. 0 < path ! i)"
proof -
  let ?g = "\<lambda>i. (r - 0.5 * sigma ^ 2) * (T / real n_steps) + sigma * sqrt (T / real n_steps) * Z i"
  let ?p0 = "(replicate (n_steps + 1) (0::real))[0 := S0]"
  have "length (foldl (\<lambda>path i. path[i := path ! (i - 1) * exp (?g i)]) ?p0 [1..<n_steps + 1]) = length ?p0
       \<and> (\<forall>j<1. foldl (\<lambda>path i. path[i := path ! (i - 1) * exp (?g i)]) ?p0 [1..<n_steps + 1] ! j = ?p0 ! j)
       \<and> (\<forall>j<n_steps + 1. 0 < foldl (\<lambda>path i. path[i := path ! (i - 1) * exp (?g i)]) ?p0 [1..<n_steps + 1] ! j)"
    using assms(1) by (intro path_fold) auto
  with assms(2) show ?thesis
    by (simp add: simulate_stock_path_def Let_def less_Suc_eq_le)
qed

lemma delta_Inr: "T \<le> 0 \<or> K \<noteq> 0 \<Longrightarrow> \<exists>x. delta S K T r sigma option_type = Inr x"
  using d1_Inr [of T K S r sigma] by (auto simp: delta_def)

lemma hedge_for_Cons:
  assumes "hedge_for K T r sigma dt option_type ts sp (i # rest) a = Inr a'"
  shows "\<exists>ov dl. hedge_for K T r sigma dt option_type ts sp rest
           \<lparr>deltas = (deltas a)[i := dl],
            shares = (shares a)[i := (deltas a)[i := dl] ! i],
            option_values = (option_values a)[i := ov],
            cash = (cash a)[i := cash a ! (i - 1) + cash a ! (i - 1) * (exp (r * dt) - 1)
                     - ((deltas a)[i := dl] ! i - shares a ! (i - 1)) * sp ! i],
            portfolio_values = (portfolio_values a)[i :=
               (cash a)[i := cash a ! (i - 1) + cash a ! (i - 1) * (exp (r * dt) - 1)
                     - ((deltas a)[i := dl] ! i - shares a ! (i - 1)) * sp ! i] ! i
               + (shares a)[i := (deltas a)[i := dl] ! i] ! i * sp ! i
               - (option_values a)[i := ov] ! i]\<rparr> = Inr a'"
  using assms
  by (simp add: Let_def split: sum.splits if_splits prod.splits) blast+

lemma hedge_for_inv:
  assumes "hedge_for K T r sigma dt option_type ts sp [k..<m] a = Inr a'"
    and "1 \<le> k" and "m \<le> n" and "arrays_len a n"
  shows "arrays_len a' n \<and> (\<forall>j<k. arrays_same a' a j) \<and> (\<forall>i. k \<le> i \<and> i < m \<longrightarrow> step_ok r dt sp a' i)"
  using assms
proof (induction "m - k" arbitrary: k a)
  case 0
  then show ?case by (auto simp: arrays_same_def)
next
  case (Suc d)
  from Suc.hyps(2) have km: "k < m" by simp
  then have upt: "[k..<m] = k # [Suc k..<m]"
    by (simp add: upt_conv_Cons)
  from Suc.prems(1) obtain ov dl where run:
    "hedge_for K T r sigma dt option_type ts sp [Suc k..<m]
           \<lparr>deltas = (deltas a)[k := dl],
            shares = (shares a)[k := (deltas a)[k := dl] ! k],
            option_values = (option_values a)[k := ov],
            cash = (cash a)[k := cash a ! (k - 1) + cash a ! (k - 1) * (exp (r * dt) - 1)
                     - ((deltas a)[k := dl] ! k - shares a ! (k - 1)) * sp ! k],
            portfolio_values = (portfolio_values a)[k :=
               (cash a)[k := cash a ! (k - 1) + cash a ! (k - 1) * (exp (r * dt) - 1)
                     - ((deltas a)[k := dl] ! k - shares a ! (k - 1)) * sp ! k] ! k
               + (shares a)[k := (deltas a)[k := dl] ! k] ! k * sp ! k
               - (option_values a)[k := ov] ! k]\<rparr> = Inr a'"
    (is "hedge_for _ _ _ _ _ _ _ _ _ ?a1 = _")
    unfolding upt using hedge_for_Cons by blast
  have len1: "arrays_len ?a1 n"
    using Suc.prems(4) by (simp add: arrays_len_def)
  have kn: "k < n" using km Suc.prems(3) by simp
  have same1: "\<forall>j<k. arrays_same ?a1 a j"
    by (simp add: arrays_same_def)
  have ok1: "step_ok r dt sp ?a1 k"
    using kn Suc.prems(2,4) by (simp add: step_ok_def arrays_len_def algebra_simps)
  have IH: "arrays_len a' n \<and> (\<forall>j<Suc k. arrays_same a' ?a1 j)
            \<and> (\<forall>i. Suc k \<le> i \<and> i < m \<longrightarrow> step_ok r dt sp a' i)"
    using Suc.hyps(2) Suc.prems(3) len1 by (intro Suc.hyps(1) run) auto
  have k1: "k - 1 < Suc k" by simp
  have okk: "step_ok r dt sp a' k"
    using IH ok1 k1 unfolding step_ok_def arrays_same_def
    by (metis lessI)
  have "step_ok r dt sp a' i" if "k \<le> i" "i < m" for i
    using that IH okk by (cases "i = k") auto
  moreover have "arrays_same a' a j" if "j < k" for j
    using that IH same1 unfolding arrays_same_def by (metis less_Suc_eq)
  ultimately show ?case
    using IH by blast
qed

lemma hedge_for_Inr:
  assumes "str_lower option_type = ''call'' \<or> str_lower option_type = ''put''" and "K \<noteq> 0"
  shows "\<exists>a'. hedge_for K T r sigma dt option_type ts sp js a = Inr a'"
proof (induction js arbitrary: a)
  case Nil
  show ?case by simp
next
  case (Cons j js)
  obtain p where p:
    "black_scholes_price (sp ! j) K (T - ts ! j) r sigma option_type = Inr p"
    using price_Inr [OF assms(1)] assms(2) by blast
  obtain d where d: "delta (sp ! j) K (T - ts ! j) r sigma option_type = Inr d"
    using delta_Inr assms(2) by blast
  show ?case
    using Cons.IH by (auto simp: p d Let_def)
qed

lemma simulate_delta_hedging_run:
  assumes "0 < S0" and "K \<noteq> 0" and "1 \<le> n_steps"
  shows "\<exists>path a summary.
           simulate_stock_path S0 r sigma T n_steps Z = Inr path
         \<and> length path = n_steps + 1 \<and> path ! 0 = S0 \<and> (\<forall>i\<le>n_steps. 0 < path ! i)
         \<and> simulate_delta_hedging S0 K T r sigma n_steps position Z
             = Inr (\<lparr>col_time = linspace 0 T (n_steps + 1), col_stock_price = path,
                     col_delta = deltas a, col_shares_held = shares a,
                     col_option_value = option_values a, col_cash = cash a,
                     col_portfolio_value = portfolio_values a\<rparr>, summary)
         \<and> arrays_len a (n_steps + 1)
         \<and> (\<forall>i. 1 \<le> i \<and> i \<le> n_steps \<longrightarrow> step_ok r (T / real n_steps) path a i)
         \<and> portfolio_values a ! 0 = cash a ! 0 + shares a ! 0 * S0 - option_values a ! 0"
proof -
  obtain path where path: "simulate_stock_path S0 r sigma T n_steps Z = Inr path"
    and len: "length path = n_steps + 1" and p0: "path ! 0 = S0"
    and pos: "\<forall>i\<le>n_steps. 0 < path ! i"
    using simulate_stock_path_run [OF assms(1,3)] by blast
  define ot where "ot = (if str_contains ''call'' (str_lower position) then ''call'' else ''put'')"
  have ot: "str_lower ot = ''call'' \<or> str_lower ot = ''put''"
    by (simp add: ot_def str_lower_call str_lower_put)
  obtain premium where premium: "black_scholes_price S0 K T r sigma ot = Inr premium"
    using price_Inr [OF ot] assms(2) by blast
  obtain delta0 where delta0: "delta S0 K T r sigma ot = Inr delta0"
    using delta_Inr assms(2) by blast
  define zeros where "zeros = replicate (n_steps + 1) (0::real)"
  define a0 where "a0 = \<lparr>deltas = zeros[0 := delta0], shares = zeros[0 := zeros[0 := delta0] ! 0],
     option_values = zeros[0 := premium],
     cash = zeros[0 := premium - zeros[0 := zeros[0 := delta0] ! 0] ! 0 * S0],
     portfolio_values = zeros[0 := zeros[0 := premium - zeros[0 := zeros[0 := delta0] ! 0] ! 0 * S0] ! 0
        + zeros[0 := zeros[0 := delta0] ! 0] ! 0 * S0 - premium]\<rparr>"
  obtain a where a:
    "hedge_for K T r sigma (T / real n_steps) ot (linspace 0 T (n_steps + 1)) path
       [1..<n_steps + 1] a0 = Inr a"
    using hedge_for_Inr [OF ot assms(2)] by blast
  have len0: "arrays_len a0 (n_steps + 1)"
    by (simp add: a0_def zeros_def arrays_len_def)
  have inv: "arrays_len a (n_steps + 1) \<and> (\<forall>j<1. arrays_same a a0 j)
       \<and> (\<forall>i. 1 \<le> i \<and> i < n_steps + 1 \<longrightarrow> step_ok r (T / real n_steps) path a i)"
    using a len0 by (intro hedge_for_inv [where n = "n_steps + 1"]) auto
  then have same: "arrays_same a a0 0" by simp
  have id0: "portfolio_values a0 ! 0 = cash a0 ! 0 + shares a0 ! 0 * S0 - option_values a0 ! 0"
    by (simp add: a0_def zeros_def)
  have id: "portfolio_values a ! 0 = cash a ! 0 + shares a ! 0 * S0 - option_values a ! 0"
    using same id0 by (simp add: arrays_same_def)
  have steps: "\<forall>i. 1 \<le> i \<and> i \<le> n_steps \<longrightarrow> step_ok r (T / real n_steps) path a i"
    using inv by (simp add: less_Suc_eq_le)
  have sim: "\<exists>summary. simulate_delta_hedging S0 K T r sigma n_steps position Z
             = Inr (\<lparr>col_time = linspace 0 T (n_steps + 1), col_stock_price = path,
                     col_delta = deltas a, col_shares_held = shares a,
                     col_option_value = option_values a, col_cash = cash a,
                     col_portfolio_value = portfolio_values a\<rparr>, summary)"
    using assms(3) a
    unfolding simulate_delta_hedging_def Let_def ot_def [symmetric] zeros_def [symmetric]
      path premium delta0 a0_def
    by simp
  from path len p0 pos sim inv steps id show ?thesis
    by blast
qed

lemma simulate_delta_hedging_path:
  assumes "simulate_delta_hedging S0 K T r sigma n_steps position Z = Inr (df, summary)"
  shows "simulate_stock_path S0 r sigma T n_steps Z = Inr (col_stock_price df)"
  using assms
  by (auto simp: simulate_delta_hedging_def Let_def split: sum.splits if_splits)

text \<open>
  C1. For \<open>S0 > 0\<close>, \<open>K > 0\<close>, \<open>T > 0\<close>, \<open>sigma > 0\<close>, at least one step, any position
  and any sequence of normal variates, \<open>simulate_delta_hedging\<close> returns a trajectory of
  \<open>n_steps + 1\<close> rows, and in every row \<open>i\<close> from \<open>0\<close> to \<open>n_steps\<close> the portfolio value is
  the cash plus the shares held times the stock price minus the option value.
\<close>

theorem self_financing_identity:
  assumes "0 < S0" and "0 < K" and "0 < T" and "0 < sigma" and "1 \<le> n_steps"
  shows "\<exists>df summary.
           simulate_delta_hedging S0 K T r sigma n_steps position Z = Inr (df, summary)
         \<and> length (col_portfolio_value df) = n_steps + 1
         \<and> length (col_cash df) = n_steps + 1
         \<and> length (col_shares_held df) = n_steps + 1
         \<and> length (col_stock_price df) = n_steps + 1
         \<and> length (col_option_value df) = n_steps + 1
         \<and> (\<forall>i\<le>n_steps.
               col_portfolio_value df ! i
                 = col_cash df ! i + col_shares_held df ! i * col_stock_price df ! i
                   - col_option_value df ! i)"
proof -
  from assms(2) have K: "K \<noteq> 0" by simp
  obtain path a summary where
    len: "length path = n_steps + 1" and p0: "path ! 0 = S0"
    and sim: "simulate_delta_hedging S0 K T r sigma n_steps position Z
             = Inr (\<lparr>col_time = linspace 0 T (n_steps + 1), col_stock_price = path,
                     col_delta = deltas a, col_shares_held = shares a,
                     col_option_value = option_values a, col_cash = cash a,
                     col_portfolio_value = portfolio_values a\<rparr>, summary)"
    and alen: "arrays_len a (n_steps + 1)"
    and steps: "\<forall>i. 1 \<le> i \<and> i \<le> n_steps \<longrightarrow> step_ok r (T / real n_steps) path a i"
    and id0: "portfolio_values a ! 0 = cash a ! 0 + shares a ! 0 * S0 - option_values a ! 0"
    using simulate_delta_hedging_run [OF assms(1) K assms(5)] by blast
  have "portfolio_values a ! i = cash a ! i + shares a ! i * path ! i - option_values a ! i"
    if "i \<le> n_steps" for i
  proof (cases "i = 0")
    case True
    with id0 p0 show ?thesis by simp
  next
    case False
    with that steps have "step_ok r (T / real n_steps) path a i" by simp
    then show ?thesis by (simp add: step_ok_def)
  qed
  with sim len alen show ?thesis
    by (simp add: arrays_len_def)
qed

theorem self_financing_identity_witness:
  "\<exists>df summary.
     simulate_delta_hedging 100 100 1 (5 / 100) (2 / 10) 2 ''short_call'' (\<lambda>i. 0)
       = Inr (df, summary)
   \<and> length (col_portfolio_value df) = 3
   \<and> col_portfolio_value df ! 2
       = col_cash df ! 2 + col_shares_held df ! 2 * col_stock_price df ! 2
         - col_option_value df ! 2"
  using self_financing_identity [of 100 100 1 "2 / 10" 2 "5 / 100" "''short_call''" "\<lambda>i. 0"]
  by auto

text \<open>
  C7. In every such run, for each step \<open>i\<close> from \<open>1\<close> to \<open>n_steps\<close> the cash is the cash of
  the step before, accrued at the risk-free rate over \<open>dt = T / n_steps\<close>, minus the cost
  of moving the holding from the shares held before to the new delta at the current
  price: \<open>cash\<^sub>i = cash\<^sub>i\<^sub>-\<^sub>1 * exp (r * dt) - (delta\<^sub>i - shares\<^sub>i\<^sub>-\<^sub>1) * S\<^sub>i\<close>.
\<close>

theorem cash_evolution:
  assumes "0 < S0" and "0 < K" and "0 < T" and "0 < sigma" and "1 \<le> n_steps"
  shows "\<exists>df summary.
           simulate_delta_hedging S0 K T r sigma n_steps position Z = Inr (df, summary)
         \<and> (\<forall>i. 1 \<le> i \<and> i \<le> n_steps \<longrightarrow>
               col_cash df ! i
                 = col_cash df ! (i - 1) * exp (r * (T / real n_steps))
                   - (col_delta df ! i - col_shares_held df ! (i - 1)) * col_stock_price df ! i)"
proof -
  from assms(2) have K: "K \<noteq> 0" by simp
  obtain path a summary where
    sim: "simulate_delta_hedging S0 K T r sigma n_steps position Z
             = Inr (\<lparr>col_time = linspace 0 T (n_steps + 1), col_stock_price = path,
                     col_delta = deltas a, col_shares_held = shares a,
                     col_option_value = option_values a, col_cash = cash a,
                     col_portfolio_value = portfolio_values a\<rparr>, summary)"
    and steps: "\<forall>i. 1 \<le> i \<and> i \<le> n_steps \<longrightarrow> step_ok r (T / real n_steps) path a i"
    using simulate_delta_hedging_run [OF assms(1) K assms(5)] by blast
  from steps have "\<forall>i. 1 \<le> i \<and> i \<le> n_steps \<longrightarrow>
     cash a ! i = cash a ! (i - 1) * exp (r * (T / real n_steps))
                  - (deltas a ! i - shares a ! (i - 1)) * path ! i"
    by (simp add: step_ok_def)
  with sim show ?thesis
    by simp
qed

theorem cash_evolution_witness:
  "\<exists>df summary.
     simulate_delta_hedging 100 100 1 (5 / 100) (2 / 10) 2 ''short_put'' (\<lambda>i. 0)
       = Inr (df, summary)
   \<and> col_cash df ! 2
       = col_cash df ! 1 * exp (5 / 100 * (1 / 2))
         - (col_delta df ! 2 - col_shares_held df ! 1) * col_stock_price df ! 2"
proof -
  obtain df summary where
    sim: "simulate_delta_hedging 100 100 1 (5 / 100) (2 / 10) 2 ''short_put'' (\<lambda>i. 0)
       = Inr (df, summary)"
    and c: "\<forall>i. 1 \<le> i \<and> i \<le> (2::nat) \<longrightarrow>
               col_cash df ! i
                 = col_cash df ! (i - 1) * exp (5 / 100 * (1 / real (2::nat)))
                   - (col_delta df ! i - col_shares_held df ! (i - 1)) * col_stock_price df ! i"
    using cash_evolution [of 100 100 1 "2 / 10" 2 "5 / 100" "''short_put''" "\<lambda>i. 0"]
    by auto
  from c have "col_cash df ! 2
       = col_cash df ! (2 - 1) * exp (5 / 100 * (1 / real (2::nat)))
         - (col_delta df ! 2 - col_shares_held df ! (2 - 1)) * col_stock_price df ! 2"
    by (rule allE [where x = 2]) simp
  with sim show ?thesis by auto
qed

text \<open>
  C8. For \<open>S0 > 0\<close>, \<open>T > 0\<close> and at least one step, \<open>simulate_stock_path\<close> returns a path
  of \<open>n_steps + 1\<close> prices, every one strictly positive; and the stock prices of any
  hedging run on the same inputs are this path, so the simulator prices the option at
  positive spot prices only.
\<close>

theorem stock_path_positive:
  assumes "0 < S0" and "0 < T" and "1 \<le> n_steps"
  shows "\<exists>path.
           simulate_stock_path S0 r sigma T n_steps Z = Inr path
         \<and> length path = n_steps + 1
         \<and> (\<forall>i\<le>n_steps. 0 < path ! i)
         \<and> (\<forall>K position df summary.
               simulate_delta_hedging S0 K T r sigma n_steps position Z = Inr (df, summary)
               \<longrightarrow> col_stock_price df = path)"
proof -
  obtain path where path: "simulate_stock_path S0 r sigma T n_steps Z = Inr path"
    and len: "length path = n_steps + 1" and pos: "\<forall>i\<le>n_steps. 0 < path ! i"
    using simulate_stock_path_run [OF assms(1,3)] by blast
  have "col_stock_price df = path"
    if "simulate_delta_hedging S0 K T r sigma n_steps position Z = Inr (df, summary)"
    for K position df summary
    using simulate_delta_hedging_path [OF that] path by simp
  with path len pos show ?thesis
    by blast
qed

theorem stock_path_positive_witness:
  "\<exists>path.
     simulate_stock_path 100 (5 / 100) (2 / 10) 1 2 (\<lambda>i. - 3) = Inr path
   \<and> length path = 3 \<and> 0 < path ! 0 \<and> 0 < path ! 1 \<and> 0 < path ! 2"
proof -
  obtain path where
    "simulate_stock_path 100 (5 / 100) (2 / 10) 1 2 (\<lambda>i. - 3) = Inr path"
    and "length path = 2 + 1" and "\<forall>i\<le>2. 0 < path ! i"
    using stock_path_positive [of 100 1 2 "5 / 100" "2 / 10" "\<lambda>i. - 3"] by auto
  then show ?thesis by auto
qed

section \<open>Newton-Raphson follows its protocol\<close>

lemma py_range_nat: "py_range n = [int 0..int (nat n) - 1]"
  by (cases "0 \<le> n") (simp_all add: py_range_def)

lemma newton_error_price:
  "black_scholes_price S K T r sigma option_type = Inr p
   \<Longrightarrow> newton_error m S K T r option_type sigma = p - m"
  by (simp add: newton_error_def)

lemma newton_vega_vega: "vega S K T r sigma = Inr v \<Longrightarrow> newton_vega S K T r sigma = v * 100"
  by (simp add: newton_vega_def)

lemma newton_for_iterate:
  assumes ot: "str_lower option_type = ''call'' \<or> str_lower option_type = ''put''"
    and KT: "T \<le> 0 \<or> K \<noteq> 0"
    and kN: "k \<le> N"
  shows "newton_for m S K T r option_type tol [int k..int N - 1]
           (newton_iterate m S K T r option_type init k)
         = Inr (case find (\<lambda>n. newton_stops m S K T r option_type tol
                                 (newton_iterate m S K T r option_type init n)) [k..<N] of
                  Some n \<Rightarrow>
                    if \<bar>newton_error m S K T r option_type
                          (newton_iterate m S K T r option_type init n)\<bar> < tol
                    then Returned
                      \<lparr>implied_vol = newton_iterate m S K T r option_type init n,
                       converged = True, iterations = int n + 1,
                       final_error = \<bar>newton_error m S K T r option_type
                                        (newton_iterate m S K T r option_type init n)\<bar>\<rparr>
                    else Ended (newton_iterate m S K T r option_type init n)
                | None \<Rightarrow> Ended (newton_iterate m S K T r option_type init N))"
  using kN
proof (induction "N - k" arbitrary: k)
  case 0
  then have "k = N" by simp
  then show ?case by simp
next
  case (Suc d)
  let ?s = "newton_iterate m S K T r option_type init k"
  from Suc.hyps(2) have kN: "k < N" by simp
  then have upt: "[k..<N] = k # [Suc k..<N]"
    by (simp add: upt_conv_Cons)
  from kN have upto: "[int k..int N - 1] = int k # [int (Suc k)..int N - 1]"
    by (simp add: upto_rec1 add.commute)
  obtain p where p: "black_scholes_price S K T r ?s option_type = Inr p"
    using price_Inr [OF ot KT] by blast
  obtain v where v: "vega S K T r ?s = Inr v"
    using vega_Inr [OF KT] by blast
  note e = newton_error_price [OF p, of m]
  note g = newton_vega_vega [OF v]
  have IH: "newton_for m S K T r option_type tol [int (Suc k)..int N - 1]
           (newton_iterate m S K T r option_type init (Suc k))
         = Inr (case find (\<lambda>n. newton_stops m S K T r option_type tol
                                 (newton_iterate m S K T r option_type init n)) [Suc k..<N] of
                  Some n \<Rightarrow>
                    if \<bar>newton_error m S K T r option_type
                          (newton_iterate m S K T r option_type init n)\<bar> < tol
                    then Returned
                      \<lparr>implied_vol = newton_iterate m S K T r option_type init n,
                       converged = True, iterations = int n + 1,
                       final_error = \<bar>newton_error m S K T r option_type
                                        (newton_iterate m S K T r option_type init n)\<bar>\<rparr>
                    else Ended (newton_iterate m S K T r option_type init n)
                | None \<Rightarrow> Ended (newton_iterate m S K T r option_type init N))"
    using Suc.hyps(2) kN by (intro Suc.hyps(1)) auto
  have nxt: "newton_iterate m S K T r option_type init (Suc k)
              = (if ?s - (p - m) / (v * 100) \<le> 0 then 0.01 else ?s - (p - m) / (v * 100))"
    by (simp add: newton_update_def e g Let_def)
  consider (conv) "\<bar>p - m\<bar> < tol"
    | (abort) "\<not> \<bar>p - m\<bar> < tol" "\<bar>v * 100\<bar> < 1 / 10 ^ 10"
    | (step) "\<not> \<bar>p - m\<bar> < tol" "\<not> \<bar>v * 100\<bar> < 1 / 10 ^ 10"
    by blast
  then show ?case
  proof cases
    case conv
    then have "newton_stops m S K T r option_type tol ?s"
      by (simp add: newton_stops_def e)
    with conv show ?thesis
      unfolding upt upto by (simp add: p e Let_def)
  next
    case abort
    then have "newton_stops m S K T r option_type tol ?s"
      by (simp add: newton_stops_def g)
    with abort show ?thesis
      unfolding upt upto by (simp add: p v e Let_def)
  next
    case step
    then have "\<not> newton_stops m S K T r option_type tol ?s"
      by (simp add: newton_stops_def e g)
    with step show ?thesis
      unfolding upt upto using IH nxt by (simp add: p v Let_def)
  qed
qed

text \<open>
  C5. For a call or a put with \<open>K \<noteq> 0\<close> (or \<open>T \<le> 0\<close>), \<open>implied_volatility_newton\<close>
  returns what the protocol prescribes: starting from \<open>initial_vol\<close> (\<open>0.20\<close> by default)
  it iterates the update \<open>sigma - error / (vega * 100)\<close>, reset to \<open>0.01\<close> when not
  positive, for at most \<open>max_iterations\<close> iterations; at the first iterate where
  \<open>\<bar>error\<bar> < tolerance\<close> it returns converged with the number of iterations run and
  \<open>\<bar>error\<bar>\<close>; at an iterate where \<open>\<bar>vega * 100\<bar> < 1e-10\<close>, or when the iterations are used
  up, it returns not converged.
\<close>

theorem newton_follows_protocol:
  assumes "str_lower option_type = ''call'' \<or> str_lower option_type = ''put''"
    and "T \<le> 0 \<or> K \<noteq> 0"
  shows "implied_volatility_newton market_price S K T r option_type initial_vol tolerance
           max_iterations
         = Inr (newton_protocol market_price S K T r option_type initial_vol tolerance
                  max_iterations)"
proof -
  let ?it = "newton_iterate market_price S K T r option_type initial_vol"
  have loop: "newton_for market_price S K T r option_type tolerance (py_range max_iterations)
           initial_vol
         = Inr (case find (\<lambda>n. newton_stops market_price S K T r option_type tolerance (?it n))
                       [0..<nat max_iterations] of
                  Some n \<Rightarrow>
                    if \<bar>newton_error market_price S K T r option_type (?it n)\<bar> < tolerance
                    then Returned
                      \<lparr>implied_vol = ?it n, converged = True, iterations = int n + 1,
                       final_error = \<bar>newton_error market_price S K T r option_type (?it n)\<bar>\<rparr>
                    else Ended (?it n)
                | None \<Rightarrow> Ended (?it (nat max_iterations)))"
    using newton_for_iterate [OF assms, where k = 0 and N = "nat max_iterations"
        and m = market_price and S = S and r = r and tol = tolerance and init = initial_vol]
    unfolding py_range_nat by simp
  have fin: "(case black_scholes_price S K T r sigma option_type of
               Inl e \<Rightarrow> Inl e
             | Inr bs_price \<Rightarrow>
                 Inr \<lparr>implied_vol = sigma, converged = False, iterations = max_iterations,
                      final_error = \<bar>bs_price - market_price\<bar>\<rparr>)
             = Inr \<lparr>implied_vol = sigma, converged = False, iterations = max_iterations,
                      final_error = \<bar>newton_error market_price S K T r option_type sigma\<bar>\<rparr>"
    for sigma
  proof -
    obtain p where p: "black_scholes_price S K T r sigma option_type = Inr p"
      using price_Inr [OF assms] by blast
    show ?thesis
      by (simp add: p newton_error_price [OF p])
  qed
  show ?thesis
    unfolding implied_volatility_newton_def loop newton_protocol_def
    by (simp add: fin Let_def split: option.split)
qed


theorem newton_follows_protocol_witness:
  "implied_volatility_newton 10 100 100 1 (5 / 100) ''call'' (2 / 10) (1 / 10 ^ 6) 100
     = Inr (newton_protocol 10 100 100 1 (5 / 100) ''call'' (2 / 10) (1 / 10 ^ 6) 100)
   \<and> implied_volatility_newton 10 100 100 0 (5 / 100) ''call'' (2 / 10) (1 / 10 ^ 6) 100
     = Inr (newton_protocol 10 100 100 0 (5 / 100) ''call'' (2 / 10) (1 / 10 ^ 6) 100)
   \<and> newton_protocol 10 100 100 0 (5 / 100) ''call'' (2 / 10) (1 / 10 ^ 6) 100
     = \<lparr>implied_vol = 2 / 10, converged = False, iterations = 100, final_error = 10\<rparr>"
proof -
  have p: "black_scholes_price 100 100 0 r sigma ''call'' = Inr 0" for r sigma
    by (simp add: black_scholes_price_def d1_def d2_def str_lower_call)
  have v: "vega 100 100 0 r sigma = Inr 0" for r sigma
    by (simp add: vega_def d1_def)
  have upt: "[0..<nat 100] = 0 # [Suc 0..<100]"
    by (simp add: upt_conv_Cons)
  have "newton_protocol 10 100 100 0 (5 / 100) ''call'' (2 / 10) (1 / 10 ^ 6) 100
     = \<lparr>implied_vol = 2 / 10, converged = False, iterations = 100, final_error = 10\<rparr>"
    unfolding newton_protocol_def upt
    by (simp add: newton_stops_def newton_error_def newton_vega_def p v)
  then show ?thesis
    using newton_follows_protocol [of "''call''" 1 100 10 100 "5 / 100" "2 / 10" "1 / 10 ^ 6" 100]
      newton_follows_protocol [of "''call''" 0 100 10 100 "5 / 100" "2 / 10" "1 / 10 ^ 6" 100]
    by (simp add: str_lower_call)
qed

section \<open>The normal distribution function: derivative, bounds, shift\<close>

text \<open>
  \<open>gauss_area\<close> is an antiderivative of \<open>exp (- x\<^sup>2 / 2)\<close>, increasing and bounded, so
  \<open>gauss_half\<close> is positive and \<open>norm_cdf\<close> runs from \<open>0\<close> (in the limit to the left)
  through \<open>1 / 2\<close> at \<open>0\<close>. The shift inequality
  \<open>norm_cdf (x - a) \<le> exp (a x - a\<^sup>2 / 2) * norm_cdf x\<close> is what makes prices non-negative.
\<close>

lemma gauss_sums: "(\<lambda>n. (- 1) ^ n * x ^ (2 * n + 1) / (2 ^ n * fact n * real (2 * n + 1))) sums gauss_area x"
  unfolding gauss_area_def by (rule summable_sums [OF summable_gauss])

lemma gauss_coeff_sums: "(\<lambda>n. gauss_coeff n * x ^ n) sums gauss_area x"
proof -
  have "(\<lambda>n. if even n then 0
             else (- 1) ^ ((n - 1) div 2) * x ^ (2 * ((n - 1) div 2) + 1)
                  / (2 ^ ((n - 1) div 2) * fact ((n - 1) div 2) * real (2 * ((n - 1) div 2) + 1)))
        sums gauss_area x"
    by (rule sums_if' [OF gauss_sums])
  moreover have "(if even n then 0
             else (- 1) ^ ((n - 1) div 2) * x ^ (2 * ((n - 1) div 2) + 1)
                  / (2 ^ ((n - 1) div 2) * fact ((n - 1) div 2) * real (2 * ((n - 1) div 2) + 1)))
        = gauss_coeff n * x ^ n" for n
  proof (cases "even n")
    case True
    then show ?thesis by (simp add: gauss_coeff_def)
  next
    case False
    then obtain k where k: "n = 2 * k + 1" by (auto elim: oddE)
    show ?thesis by (simp add: k gauss_coeff_def)
  qed
  ultimately show ?thesis by simp
qed

lemma diffs_gauss_coeff:
  "diffs gauss_coeff n
     = (if even n then (- 1) ^ (n div 2) / (2 ^ (n div 2) * fact (n div 2)) else 0)"
proof (cases "even n")
  case True
  then obtain k where k: "n = 2 * k" by (auto elim: evenE)
  have "real (Suc (2 * k)) \<noteq> 0" by simp
  then show ?thesis
    unfolding k diffs_def gauss_coeff_def by (simp del: of_nat_Suc)
next
  case False
  then show ?thesis by (simp add: diffs_def gauss_coeff_def)
qed

lemma diffs_gauss_sums: "(\<lambda>n. diffs gauss_coeff n * x ^ n) sums exp (- (x\<^sup>2) / 2)"
proof -
  have e: "(\<lambda>k. (- (x\<^sup>2) / 2) ^ k / fact k) sums exp (- (x\<^sup>2) / 2)"
    using exp_converges [of "- (x\<^sup>2) / 2"] by (simp add: field_simps)
  have z: "(\<lambda>k::nat. 0::real) sums 0" by simp
  have "(\<lambda>n. if even n then (- (x\<^sup>2) / 2) ^ (n div 2) / fact (n div 2) else 0)
          sums (0 + exp (- (x\<^sup>2) / 2))"
    by (rule sums_if [OF z e])
  moreover have "(if even n then (- (x\<^sup>2) / 2) ^ (n div 2) / fact (n div 2) else 0)
                 = diffs gauss_coeff n * x ^ n" for n
  proof (cases "even n")
    case True
    then obtain k where k: "n = 2 * k" by (auto elim: evenE)
    have "(- (x\<^sup>2) / 2) ^ k = ((- 1) * (x\<^sup>2 / 2)) ^ k" by simp
    also have "\<dots> = (- 1) ^ k * (x\<^sup>2) ^ k / 2 ^ k"
      unfolding power_mult_distrib power_divide by simp
    finally show ?thesis
      by (simp add: k diffs_gauss_coeff power_mult)
  next
    case False
    then show ?thesis by (simp add: diffs_gauss_coeff)
  qed
  ultimately show ?thesis by simp
qed

lemma DERIV_gauss_area: "DERIV gauss_area x :> exp (- (x\<^sup>2) / 2)"
proof -
  have s: "summable (\<lambda>n. gauss_coeff n * y ^ n)" for y
    using gauss_coeff_sums [of y] by (rule sums_summable)
  have "DERIV (\<lambda>x. \<Sum>n. gauss_coeff n * x ^ n) x :> (\<Sum>n. diffs gauss_coeff n * x ^ n)"
    by (rule termdiffs_strong_converges_everywhere [OF s])
  moreover have "(\<lambda>x. \<Sum>n. gauss_coeff n * x ^ n) = gauss_area"
    using gauss_coeff_sums by (auto simp: fun_eq_iff sums_iff)
  moreover have "(\<Sum>n. diffs gauss_coeff n * x ^ n) = exp (- (x\<^sup>2) / 2)"
    using diffs_gauss_sums [of x] by (simp add: sums_iff)
  ultimately show ?thesis by simp
qed

lemma gauss_area_mono: "x \<le> y \<Longrightarrow> gauss_area x \<le> gauss_area y"
  by (rule DERIV_nonneg_imp_nondecreasing [of x y gauss_area])
     (auto intro!: exI [of _ "exp (- (z\<^sup>2) / 2)" for z] DERIV_gauss_area)

lemma gauss_area_1_pos: "0 < gauss_area 1"
proof -
  have "gauss_area 0 < gauss_area 1"
    by (rule DERIV_pos_imp_increasing [of 0 1 gauss_area])
       (auto intro!: exI [of _ "exp (- (z\<^sup>2) / 2)" for z] DERIV_gauss_area)
  then show ?thesis by (simp add: gauss_area_0)
qed

lemma gauss_area_bound: "gauss_area x \<le> exp (1 / 2)"
proof (cases "0 \<le> x")
  case True
  have "gauss_area x + exp (1 / 2 - x) \<le> gauss_area 0 + exp (1 / 2 - 0)"
  proof (rule DERIV_nonpos_imp_nonincreasing [of 0 x "\<lambda>t. gauss_area t + exp (1 / 2 - t)"])
    show "0 \<le> x" by (rule True)
    fix t :: real
    have d: "DERIV (\<lambda>t. gauss_area t + exp (1 / 2 - t)) t :> exp (- (t\<^sup>2) / 2) - exp (1 / 2 - t)"
      by (auto intro!: derivative_eq_intros DERIV_gauss_area)
    have "0 \<le> (t - 1)\<^sup>2" by simp
    then have "- (t\<^sup>2) / 2 \<le> 1 / 2 - t"
      by (simp add: power2_eq_square algebra_simps)
    then have "exp (- (t\<^sup>2) / 2) - exp (1 / 2 - t) \<le> 0" by simp
    with d show "\<exists>y. DERIV (\<lambda>t. gauss_area t + exp (1 / 2 - t)) t :> y \<and> y \<le> 0"
      by blast
  qed
  then have "gauss_area x + exp (1 / 2 - x) \<le> exp (1 / 2)"
    by (simp add: gauss_area_0)
  moreover have "0 < exp (1 / 2 - x)" by simp
  ultimately show ?thesis by linarith
next
  case False
  then have "gauss_area x \<le> gauss_area 0"
    by (intro gauss_area_mono) simp
  also have "\<dots> \<le> exp (1 / 2)" by (simp add: gauss_area_0)
  finally show ?thesis .
qed

lemma bdd_gauss_area: "bdd_above (range gauss_area)"
  using gauss_area_bound by (auto simp: bdd_above_def)

lemma gauss_area_le_half: "gauss_area x \<le> gauss_half"
  unfolding gauss_half_def by (rule cSUP_upper [OF _ bdd_gauss_area]) simp

lemma gauss_half_pos: "0 < gauss_half"
  using gauss_area_1_pos gauss_area_le_half [of 1] by linarith

lemma gauss_area_near_half:
  assumes "0 < e"
  shows "\<exists>z. gauss_half - e < gauss_area z"
proof -
  have "gauss_half - e < Sup (range gauss_area)"
    using assms by (simp add: gauss_half_def)
  then show ?thesis
    using less_cSup_iff [of "range gauss_area" "gauss_half - e"] bdd_gauss_area by auto
qed

lemma norm_cdf_nonneg: "0 \<le> norm_cdf x"
proof -
  have "- gauss_half \<le> gauss_area x"
    using gauss_area_le_half [of "- x"] by (simp add: gauss_area_minus)
  then have "- 1 / 2 \<le> gauss_area x / (2 * gauss_half)"
    using gauss_half_pos by (simp add: field_simps)
  then show ?thesis by (simp add: norm_cdf_def)
qed

lemma norm_cdf_small:
  assumes "0 < e"
  shows "\<exists>y. \<forall>z\<le>y. norm_cdf z < e"
proof -
  have pos: "0 < 2 * gauss_half * e"
    using assms gauss_half_pos by simp
  obtain w where w: "gauss_half - 2 * gauss_half * e < gauss_area w"
    using gauss_area_near_half [OF pos] by blast
  have "norm_cdf z < e" if "z \<le> - w" for z
  proof -
    have "gauss_area z \<le> gauss_area (- w)"
      using that by (rule gauss_area_mono)
    with w have "gauss_area z < - gauss_half + 2 * gauss_half * e"
      by (simp add: gauss_area_minus)
    then have "gauss_area z / (2 * gauss_half) < - 1 / 2 + e"
      using gauss_half_pos by (simp add: field_simps)
    then show ?thesis by (simp add: norm_cdf_def)
  qed
  then show ?thesis by blast
qed

lemma DERIV_norm_cdf: "DERIV norm_cdf x :> exp (- (x\<^sup>2) / 2) / (2 * gauss_half)"
proof -
  have "DERIV (\<lambda>x. 1 / 2 + gauss_area x / (2 * gauss_half)) x
          :> exp (- (x\<^sup>2) / 2) / (2 * gauss_half)"
    using gauss_half_pos by (auto intro!: derivative_eq_intros DERIV_gauss_area)
  moreover have "(\<lambda>x. 1 / 2 + gauss_area x / (2 * gauss_half)) = norm_cdf"
    by (simp add: fun_eq_iff norm_cdf_def)
  ultimately show ?thesis by simp
qed

lemma norm_cdf_shift:
  assumes "0 < a"
  shows "norm_cdf (x - a) \<le> exp (a * x - a\<^sup>2 / 2) * norm_cdf x"
proof -
  define h where "h = (\<lambda>t. exp (a * t - a\<^sup>2 / 2) * norm_cdf t - norm_cdf (t - a))"
  have dh: "\<exists>y. DERIV h t :> y \<and> 0 \<le> y" for t
  proof -
    have d: "DERIV h t :> (exp (a * t - a\<^sup>2 / 2) * a) * norm_cdf t
            + exp (a * t - a\<^sup>2 / 2) * (exp (- (t\<^sup>2) / 2) / (2 * gauss_half))
            - exp (- ((t - a)\<^sup>2) / 2) / (2 * gauss_half)"
      unfolding h_def
      by (auto intro!: derivative_eq_intros DERIV_norm_cdf [THEN DERIV_chain2]
            DERIV_norm_cdf)
    have eq: "exp (a * t - a\<^sup>2 / 2) * (exp (- (t\<^sup>2) / 2) / (2 * gauss_half))
            = exp (- ((t - a)\<^sup>2) / 2) / (2 * gauss_half)"
    proof -
      have "a * t - a\<^sup>2 / 2 + - (t\<^sup>2) / 2 = - ((t - a)\<^sup>2) / 2"
        by (simp add: power2_eq_square algebra_simps)
      then have "exp (a * t - a\<^sup>2 / 2) * exp (- (t\<^sup>2) / 2) = exp (- ((t - a)\<^sup>2) / 2)"
        by (simp add: exp_add [symmetric])
      then show ?thesis by simp
    qed
    from d have "DERIV h t :> (exp (a * t - a\<^sup>2 / 2) * a) * norm_cdf t"
      by (simp only: eq add_diff_cancel)
    moreover have "0 \<le> (exp (a * t - a\<^sup>2 / 2) * a) * norm_cdf t"
      using assms norm_cdf_nonneg by simp
    ultimately show ?thesis by blast
  qed
  have lower: "- e < h x" if e: "0 < e" for e
  proof -
    obtain y where y: "\<forall>z\<le>y. norm_cdf z < e"
      using norm_cdf_small [OF e] by blast
    define t where "t = min x (y + a)"
    have "norm_cdf (t - a) < e"
      using y by (simp add: t_def)
    moreover have "0 \<le> exp (a * t - a\<^sup>2 / 2) * norm_cdf t"
      using norm_cdf_nonneg by simp
    ultimately have "- e < h t"
      by (simp add: h_def)
    moreover have "h t \<le> h x"
    proof (rule DERIV_nonneg_imp_nondecreasing [of t x h])
      show "t \<le> x" by (simp add: t_def)
      show "\<exists>y. DERIV h z :> y \<and> 0 \<le> y" for z by (rule dh)
    qed
    ultimately show ?thesis by linarith
  qed
  have "0 \<le> h x"
  proof (rule ccontr)
    assume "\<not> 0 \<le> h x"
    then have "0 < - h x" by simp
    then have "- (- h x) < h x" by (rule lower)
    then show False by simp
  qed
  then show ?thesis by (simp add: h_def)
qed

section \<open>Prices are not negative before expiry\<close>

lemma call_value_nonneg:
  assumes "0 < S" and "0 < K" and "0 < a" and ax: "a * x - a\<^sup>2 / 2 = ln (S / K) + r * T"
  shows "0 \<le> S * norm_cdf x - K * exp (- r * T) * norm_cdf (x - a)"
proof -
  have "exp (a * x - a\<^sup>2 / 2) = S / K * exp (r * T)"
    using assms(1,2) by (simp add: ax exp_add)
  then have "norm_cdf (x - a) \<le> S / K * exp (r * T) * norm_cdf x"
    using norm_cdf_shift [OF assms(3), of x] by simp
  then have "K * exp (- r * T) * norm_cdf (x - a)
             \<le> K * exp (- r * T) * (S / K * exp (r * T) * norm_cdf x)"
    using assms(2) by (intro mult_left_mono) simp_all
  also have "\<dots> = S * norm_cdf x * (exp (- r * T) * exp (r * T))"
    using assms(2) by simp
  also have "\<dots> = S * norm_cdf x"
    by (simp add: exp_add [symmetric])
  finally show ?thesis by simp
qed

lemma put_value_nonneg:
  assumes "0 < S" and "0 < K" and "0 < a" and ax: "a * x - a\<^sup>2 / 2 = ln (S / K) + r * T"
  shows "0 \<le> K * exp (- r * T) * norm_cdf (- (x - a)) - S * norm_cdf (- x)"
proof -
  have "a * (a - x) - a\<^sup>2 / 2 = - (a * x - a\<^sup>2 / 2)"
    by (simp add: power2_eq_square algebra_simps)
  then have "exp (a * (a - x) - a\<^sup>2 / 2) = exp (- (ln (S / K) + r * T))"
    by (simp add: ax)
  also have "\<dots> = exp (- ln (S / K)) * exp (- r * T)"
    by (simp add: exp_add [symmetric])
  also have "exp (- ln (S / K)) = K / S"
    using assms(1,2) by (simp add: exp_minus)
  finally have e: "exp (a * (a - x) - a\<^sup>2 / 2) = K / S * exp (- r * T)" .
  have "norm_cdf (a - x - a) \<le> K / S * exp (- r * T) * norm_cdf (a - x)"
    using norm_cdf_shift [OF assms(3), of "a - x"] by (simp only: e)
  then have "norm_cdf (- x) \<le> K / S * exp (- r * T) * norm_cdf (a - x)"
    by simp
  then have "S * norm_cdf (- x) \<le> S * (K / S * exp (- r * T) * norm_cdf (a - x))"
    using assms(1) by (intro mult_left_mono) simp_all
  also have "\<dots> = K * exp (- r * T) * norm_cdf (a - x)"
    using assms(1) by simp
  finally show ?thesis by simp
qed

lemma d1_identity:
  assumes "0 < T" and "0 < sigma"
  shows "sigma * sqrt T * ((ln (S / K) + (r + 0.5 * sigma ^ 2) * T) / (sigma * sqrt T))
           - (sigma * sqrt T)\<^sup>2 / 2
         = ln (S / K) + r * T"
proof -
  have "sigma * sqrt T \<noteq> 0" using assms by simp
  then have e1: "sigma * sqrt T * ((ln (S / K) + (r + 0.5 * sigma ^ 2) * T) / (sigma * sqrt T))
             = ln (S / K) + (r + 0.5 * sigma ^ 2) * T"
    by (rule nonzero_mult_div_cancel_left [THEN trans [OF times_divide_eq_right]])
  have e2: "(sigma * sqrt T)\<^sup>2 = sigma ^ 2 * T"
    using assms by (simp add: power_mult_distrib)
  show ?thesis
    unfolding e1 e2 by (simp add: algebra_simps)
qed

text \<open>
  C3, as stated, fails at \<open>T = 0\<close>: there \<open>d1\<close> and \<open>d2\<close> are \<open>0\<close>, and the price of a call
  with \<open>S = 50\<close> and \<open>K = 100\<close> is \<open>50 * 0.5 - 100 * 0.5 = -25\<close>.
\<close>

theorem out_of_the_money_at_expiry:
  "black_scholes_price 50 100 0 (5 / 100) (2 / 10) ''call'' = Inr (- 25) \<and> (- 25 :: real) < 0"
  by (simp add: black_scholes_price_def d1_def d2_def str_lower_call norm_cdf_0)

text \<open>
  C3, amended. For \<open>S > 0\<close>, \<open>K > 0\<close>, \<open>sigma > 0\<close> and any \<open>r\<close>: when \<open>T > 0\<close> the price of
  a call and the price of a put exist and are not negative; when \<open>T = 0\<close> the price is
  \<open>(S - K) / 2\<close> for a call and \<open>(K - S) / 2\<close> for a put, which is negative for an option
  out of the money.
\<close>

theorem price_nonneg:
  assumes "0 < S" and "0 < K" and "0 \<le> T" and "0 < sigma"
  shows "(0 < T \<longrightarrow>
            (\<exists>c p. black_scholes_price S K T r sigma ''call'' = Inr c \<and> 0 \<le> c
                 \<and> black_scholes_price S K T r sigma ''put'' = Inr p \<and> 0 \<le> p))
       \<and> (T = 0 \<longrightarrow>
            black_scholes_price S K T r sigma ''call'' = Inr ((S - K) / 2)
            \<and> black_scholes_price S K T r sigma ''put'' = Inr ((K - S) / 2))"
proof (intro conjI impI)
  assume T: "0 < T"
  define a where "a = sigma * sqrt T"
  define x where "x = (ln (S / K) + (r + 0.5 * sigma ^ 2) * T) / (sigma * sqrt T)"
  have a: "0 < a" using T assms(4) by (simp add: a_def)
  have ax: "a * x - a\<^sup>2 / 2 = ln (S / K) + r * T"
    unfolding a_def x_def by (rule d1_identity [OF T assms(4)])
  have d1: "d1 S K T r sigma = Inr x"
    using T assms(2) by (simp add: d1_def x_def Let_def)
  then have d2: "d2 S K T r sigma = Inr (x - a)"
    by (simp add: d2_def a_def)
  have c: "black_scholes_price S K T r sigma ''call''
           = Inr (S * norm_cdf x - K * exp (- r * T) * norm_cdf (x - a))"
    by (simp add: black_scholes_price_def d1 d2 str_lower_call)
  have p: "black_scholes_price S K T r sigma ''put''
           = Inr (K * exp (- r * T) * norm_cdf (- (x - a)) - S * norm_cdf (- x))"
    by (simp add: black_scholes_price_def d1 d2 str_lower_call str_lower_put)
  from c p call_value_nonneg [OF assms(1,2) a ax] put_value_nonneg [OF assms(1,2) a ax]
  show "\<exists>c p. black_scholes_price S K T r sigma ''call'' = Inr c \<and> 0 \<le> c
                 \<and> black_scholes_price S K T r sigma ''put'' = Inr p \<and> 0 \<le> p"
    by blast
next
  assume "T = 0"
  then show "black_scholes_price S K T r sigma ''call'' = Inr ((S - K) / 2)"
    by (simp add: black_scholes_price_def d1_def d2_def str_lower_call norm_cdf_0
        algebra_simps diff_divide_distrib)
next
  assume "T = 0"
  then show "black_scholes_price S K T r sigma ''put'' = Inr ((K - S) / 2)"
    by (simp add: black_scholes_price_def d1_def d2_def str_lower_call str_lower_put norm_cdf_0
        algebra_simps diff_divide_distrib)
qed

theorem price_nonneg_witness:
  "(\<exists>c p. black_scholes_price 50 100 1 (5 / 100) (2 / 10) ''call'' = Inr c \<and> 0 \<le> c
         \<and> black_scholes_price 50 100 1 (5 / 100) (2 / 10) ''put'' = Inr p \<and> 0 \<le> p)
   \<and> black_scholes_price 50 100 0 (5 / 100) (2 / 10) ''call'' = Inr ((50 - 100) / 2)"
  using price_nonneg [of 50 100 1 "2 / 10" "5 / 100"] price_nonneg [of 50 100 0 "2 / 10" "5 / 100"]
  by simp

end
